theory Spec2Isabelle
  imports Main
begin

section \<open>Levels and level enablers (zapcore/level.go, zap/level.go)\<close>

text \<open>
  \<^verbatim>\<open>type Level int8\<close>. The constants run from \<^verbatim>\<open>DebugLevel = -1\<close> to
  \<^verbatim>\<open>FatalLevel = 5\<close>; no loop of the modelled code leaves the range \<open>-2 .. 6\<close>, so the
  levels are integers and no wrap-around is involved.
\<close>

type_synonym Level = int

definition DebugLevel :: Level where "DebugLevel = - 1"
definition InfoLevel :: Level where "InfoLevel = 0"
definition WarnLevel :: Level where "WarnLevel = 1"
definition ErrorLevel :: Level where "ErrorLevel = 2"
definition DPanicLevel :: Level where "DPanicLevel = 3"
definition PanicLevel :: Level where "PanicLevel = 4"
definition FatalLevel :: Level where "FatalLevel = 5"

text \<open>\<^verbatim>\<open>_minLevel\<close>, \<^verbatim>\<open>_maxLevel\<close> and \<^verbatim>\<open>InvalidLevel = _maxLevel + 1\<close>.\<close>

definition minLevel :: Level where "minLevel = DebugLevel"
definition maxLevel :: Level where "maxLevel = FatalLevel"
definition InvalidLevel :: Level where "InvalidLevel = maxLevel + 1"

text \<open>
  A value of the interface \<^verbatim>\<open>LevelEnabler\<close> is its method table: the method
  \<^verbatim>\<open>Enabled(Level) bool\<close>, and the method \<^verbatim>\<open>Level() Level\<close> when the dynamic
  type also satisfies \<^verbatim>\<open>leveledEnabler\<close> (\<open>LevelFn = Some l\<close>, with \<open>l\<close> the level the
  method reports), which is what the type assertion of \<^verbatim>\<open>LevelOf\<close> tests.
\<close>

record LevelEnabler =
  Enabled :: "Level \<Rightarrow> bool"
  LevelFn :: "Level option"

text \<open>\<^verbatim>\<open>func (l Level) Enabled(lvl Level) bool { return lvl >= l }\<close>\<close>

definition Level_Enabled :: "Level \<Rightarrow> Level \<Rightarrow> bool" where
  "Level_Enabled l lvl = (lvl \<ge> l)"

text \<open>
  The enablers of the source: a static \<^verbatim>\<open>Level\<close> (no \<^verbatim>\<open>Level()\<close> method), a
  \<^verbatim>\<open>LevelEnablerFunc\<close> (no \<^verbatim>\<open>Level()\<close> method) and an \<^verbatim>\<open>AtomicLevel\<close> holding
  \<open>l\<close> (which reports it).
\<close>

definition LevelEnab :: "Level \<Rightarrow> LevelEnabler" where
  "LevelEnab l = \<lparr>Enabled = Level_Enabled l, LevelFn = None\<rparr>"

definition LevelEnablerFunc :: "(Level \<Rightarrow> bool) \<Rightarrow> LevelEnabler" where
  "LevelEnablerFunc f = \<lparr>Enabled = f, LevelFn = None\<rparr>"

definition AtomicLevel :: "Level \<Rightarrow> LevelEnabler" where
  "AtomicLevel l = \<lparr>Enabled = Level_Enabled l, LevelFn = Some l\<rparr>"

text \<open>
  The probe of \<^verbatim>\<open>LevelOf\<close>:
  \<^verbatim>\<open>for lvl := _minLevel; lvl <= _maxLevel; lvl++ { if enab.Enabled(lvl) { return lvl } }
  return InvalidLevel\<close>
\<close>

function LevelOf_probe :: "(Level \<Rightarrow> bool) \<Rightarrow> Level \<Rightarrow> Level" where
  "LevelOf_probe en lvl =
     (if lvl \<le> maxLevel then (if en lvl then lvl else LevelOf_probe en (lvl + 1))
      else InvalidLevel)"
  by pat_completeness auto
termination
  by (relation "measure (\<lambda>(en, lvl). nat (maxLevel + 1 - lvl))") auto

declare LevelOf_probe.simps [simp del]

definition LevelOf :: "LevelEnabler \<Rightarrow> Level" where
  "LevelOf enab =
     (case LevelFn enab of
        Some l \<Rightarrow> l
      | None \<Rightarrow> LevelOf_probe (Enabled enab) minLevel)"

section \<open>Entries, fields, errors and the trace of effects\<close>

record EntryCaller =
  Defined :: bool
  PC :: nat
  File :: string
  Line :: int
  Function :: string

record Entry =
  Level :: Level
  Time :: int
  LoggerName :: string
  Message :: string
  Caller :: EntryCaller
  Stack :: string

text \<open>A field is a key with a value; the encoders that read it are outside the model.\<close>

datatype Field = Field string string

text \<open>
  A Go \<^verbatim>\<open>error\<close> is \<open>error option\<close>, \<open>None\<close> being \<^verbatim>\<open>nil\<close>. \<open>MultiError\<close> is the
  combined error of the library \<^verbatim>\<open>go.uber.org/multierr\<close>.
\<close>

datatype error =
    ErrInvalidIncrease Level
  | ErrOther string
  | MultiError "error list"

fun errors_of :: "error \<Rightarrow> error list" where
  "errors_of (MultiError es) = es"
| "errors_of e = [e]"

text \<open>
  Modelled from the spec: \<^verbatim>\<open>multierr.Append\<close> belongs to an external library that is not
  part of the sources. Following its documentation and the specification ("aggregates all
  errors"), it returns the other argument when one is \<^verbatim>\<open>nil\<close> and otherwise a combined
  error that holds the errors of both, flattened, in order.
\<close>

fun multierr_Append :: "error option \<Rightarrow> error option \<Rightarrow> error option" where
  "multierr_Append None right = right"
| "multierr_Append left None = left"
| "multierr_Append (Some l) (Some r) = Some (MultiError (errors_of l @ errors_of r))"

text \<open>
  What reaches a sink: the bytes of an encoded entry, or one of the diagnostic lines that
  \<^verbatim>\<open>CheckedEntry.Write\<close> and \<^verbatim>\<open>Logger.check\<close> print with \<^verbatim>\<open>fmt.Fprintf\<close>.
\<close>

datatype payload =
    Encoded string
  | UnsafeReuseLine int Entry
  | WriteErrorLine int error
  | CallerErrorLine int

text \<open>
  The effects of the code are recorded in a trace, in the order in which they happen.
  Encoders, sinks and callbacks are external: each has an identifier, under which its calls
  are recorded, and a result that may depend on everything that happened before.
\<close>

datatype event =
    EvEncode nat "Field list" Entry "Field list"
  | EvSinkWrite nat payload
  | EvBufferFree
  | EvSinkSync nat
  | EvHook nat Entry
  | EvOnWrite nat "Field list"
  | EvPoolPut

type_synonym trace = "event list"

record Encoder =
  enc_id :: nat
  enc_ctx :: "Field list"
  EncodeEntry :: "trace \<Rightarrow> Field list \<Rightarrow> Entry \<Rightarrow> Field list \<Rightarrow> error + string"

record WriteSyncer =
  ws_id :: nat
  ws_Write :: "trace \<Rightarrow> payload \<Rightarrow> error option"
  ws_Sync :: "trace \<Rightarrow> error option"

record HookFn =
  hook_id :: nat
  hook_call :: "trace \<Rightarrow> Entry \<Rightarrow> error option"

section \<open>Cores (zapcore/core.go, tee.go, increase\_level.go, hook.go)\<close>

text \<open>
  The implementations of the interface \<^verbatim>\<open>Core\<close> in the modelled files: \<^verbatim>\<open>nopCore\<close>,
  \<^verbatim>\<open>ioCore\<close>, \<^verbatim>\<open>multiCore\<close>, \<^verbatim>\<open>levelFilterCore\<close> and \<^verbatim>\<open>hooked\<close>.
\<close>

datatype Core =
    NopCore
  | IoCore LevelEnabler Encoder WriteSyncer
  | MultiCore "Core list"
  | LevelFilterCore Core LevelEnabler
  | Hooked Core "HookFn list"

text \<open>
  \<^verbatim>\<open>Enabled\<close>. For \<^verbatim>\<open>multiCore\<close>:
  \<^verbatim>\<open>for i := range mc { if mc[i].Enabled(lvl) { return true } }; return false\<close>
\<close>

fun Core_Enabled :: "Core \<Rightarrow> Level \<Rightarrow> bool"
  and multiCore_Enabled :: "Core list \<Rightarrow> Level \<Rightarrow> bool" where
  "Core_Enabled NopCore lvl = False"
| "Core_Enabled (IoCore enab enc out) lvl = Enabled enab lvl"
| "Core_Enabled (MultiCore mc) lvl = multiCore_Enabled mc lvl"
| "Core_Enabled (LevelFilterCore c level) lvl = Enabled level lvl"
| "Core_Enabled (Hooked c funcs) lvl = Core_Enabled c lvl"
| "multiCore_Enabled [] lvl = False"
| "multiCore_Enabled (c # cs) lvl =
     (if Core_Enabled c lvl then True else multiCore_Enabled cs lvl)"

text \<open>
  The method \<^verbatim>\<open>Level()\<close> of a core, \<open>None\<close> for \<^verbatim>\<open>nopCore\<close>, which has none. For
  \<^verbatim>\<open>multiCore\<close>:
  \<^verbatim>\<open>minLvl := _maxLevel // mc is never empty
  for i := range mc { if lvl := LevelOf(mc[i]); lvl < minLvl { minLvl = lvl } }
  return minLvl\<close>
\<close>

fun Core_LevelFn :: "Core \<Rightarrow> Level option"
  and multiCore_Level :: "Core list \<Rightarrow> Level \<Rightarrow> Level" where
  "Core_LevelFn NopCore = None"
| "Core_LevelFn (IoCore enab enc out) = Some (LevelOf enab)"
| "Core_LevelFn (MultiCore mc) = Some (multiCore_Level mc maxLevel)"
| "Core_LevelFn (LevelFilterCore c level) = Some (LevelOf level)"
| "Core_LevelFn (Hooked c funcs) =
     Some (LevelOf \<lparr>Enabled = Core_Enabled c, LevelFn = Core_LevelFn c\<rparr>)"
| "multiCore_Level [] minLvl = minLvl"
| "multiCore_Level (c # cs) minLvl =
     (let lvl = LevelOf \<lparr>Enabled = Core_Enabled c, LevelFn = Core_LevelFn c\<rparr>
      in multiCore_Level cs (if lvl < minLvl then lvl else minLvl))"

text \<open>A core used where a \<^verbatim>\<open>LevelEnabler\<close> is expected, as in \<^verbatim>\<open>LevelOf(mc[i])\<close>.\<close>

definition Core_enabler :: "Core \<Rightarrow> LevelEnabler" where
  "Core_enabler c = \<lparr>Enabled = Core_Enabled c, LevelFn = Core_LevelFn c\<rparr>"

text \<open>
  \<^verbatim>\<open>NewIncreaseLevelCore\<close>:
  \<^verbatim>\<open>for l := _maxLevel; l >= _minLevel; l-- {
    if !core.Enabled(l) && level.Enabled(l) { return nil, fmt.Errorf(...) } }
  return &levelFilterCore{core, level}, nil\<close>
\<close>

function increase_check :: "Core \<Rightarrow> LevelEnabler \<Rightarrow> Level \<Rightarrow> error option" where
  "increase_check core level l =
     (if l \<ge> minLevel then
        (if \<not> Core_Enabled core l \<and> Enabled level l then Some (ErrInvalidIncrease l)
         else increase_check core level (l - 1))
      else None)"
  by pat_completeness auto
termination
  by (relation "measure (\<lambda>(core, level, l). nat (l - minLevel + 1))") auto

declare increase_check.simps [simp del]

definition NewIncreaseLevelCore :: "Core \<Rightarrow> LevelEnabler \<Rightarrow> error + Core" where
  "NewIncreaseLevelCore core level =
     (case increase_check core level maxLevel of
        Some err \<Rightarrow> Inl err
      | None \<Rightarrow> Inr (LevelFilterCore core level))"

text \<open>\<^verbatim>\<open>RegisterHooks\<close> copies the callbacks and wraps the core.\<close>

definition RegisterHooks :: "Core \<Rightarrow> HookFn list \<Rightarrow> Core" where
  "RegisterHooks c hooks = Hooked c ([] @ hooks)"

text \<open>
  \<^verbatim>\<open>NewTee\<close>: a switch on \<^verbatim>\<open>len(cores)\<close>.
\<close>

fun NewTee :: "Core list \<Rightarrow> Core" where
  "NewTee [] = NopCore"
| "NewTee [c] = c"
| "NewTee cores = MultiCore cores"

text \<open>
  \<^verbatim>\<open>With\<close>. \<^verbatim>\<open>ioCore.With\<close> clones the encoder and adds the fields to the clone;
  the other cores pass the fields on to the cores they wrap.
\<close>

fun Core_With :: "Core \<Rightarrow> Field list \<Rightarrow> Core" where
  "Core_With NopCore flds = NopCore"
| "Core_With (IoCore enab enc out) flds =
     IoCore enab (enc\<lparr>enc_ctx := enc_ctx enc @ flds\<rparr>) out"
| "Core_With (MultiCore mc) flds = MultiCore (map (\<lambda>c. Core_With c flds) mc)"
| "Core_With (LevelFilterCore c level) flds = LevelFilterCore (Core_With c flds) level"
| "Core_With (Hooked c funcs) flds = Hooked (Core_With c flds) funcs"

section \<open>Checked entries (zapcore/entry.go)\<close>

datatype CheckWriteAction = WriteThenNoop | WriteThenGoexit | WriteThenPanic | WriteThenFatal

text \<open>How a call ends: it returns, or it leaves through one of the terminal actions.\<close>

datatype outcome = Returned | Goexit | Panicked string | Exited int

text \<open>
  A \<^verbatim>\<open>CheckWriteHook\<close> is one of the four actions or a hook of the user, which has an
  identifier and the way its \<^verbatim>\<open>OnWrite\<close> ends.
\<close>

datatype CheckWriteHook = Action CheckWriteAction | CustomHook nat outcome

record CheckedEntry =
  entry :: Entry
  ErrorOutput :: "WriteSyncer option"
  dirty :: bool
  after :: "CheckWriteHook option"
  cores :: "Core list"

definition Entry_zero :: Entry where
  "Entry_zero =
     \<lparr>Level = 0, Time = 0, LoggerName = [], Message = [],
      Caller = \<lparr>Defined = False, PC = 0, File = [], Line = 0, Function = []\<rparr>,
      Stack = []\<rparr>"

text \<open>\<^verbatim>\<open>reset\<close> clears every field; \<^verbatim>\<open>getCheckedEntry\<close> resets what the pool hands out.\<close>

definition reset :: "CheckedEntry \<Rightarrow> CheckedEntry" where
  "reset ce =
     ce\<lparr>entry := Entry_zero, ErrorOutput := None, dirty := False, after := None, cores := []\<rparr>"

definition getCheckedEntry :: "CheckedEntry \<Rightarrow> CheckedEntry" where
  "getCheckedEntry pooled = reset pooled"

text \<open>What \<^verbatim>\<open>_cePool\<close> allocates; the four preallocated slots are cut off by \<^verbatim>\<open>reset\<close>.\<close>

definition cePool_new :: CheckedEntry where
  "cePool_new =
     \<lparr>entry = Entry_zero, ErrorOutput = None, dirty = False, after = None, cores = []\<rparr>"

text \<open>
  \<^verbatim>\<open>AddCore\<close> and \<^verbatim>\<open>After\<close>, both safe on a \<^verbatim>\<open>nil\<close> receiver (\<open>None\<close>), on the
  contents of the instance. Whatever instance the pool hands out, \<^verbatim>\<open>reset\<close> leaves it
  with these contents; the versions on handles, which keep track of which instance it
  is, come with the pool below.
\<close>

definition AddCore :: "CheckedEntry option \<Rightarrow> Entry \<Rightarrow> Core \<Rightarrow> CheckedEntry option" where
  "AddCore ce ent core =
     (let ce1 = (case ce of None \<Rightarrow> (getCheckedEntry cePool_new)\<lparr>entry := ent\<rparr> | Some c \<Rightarrow> c)
      in Some (ce1\<lparr>cores := cores ce1 @ [core]\<rparr>))"

definition After :: "CheckedEntry option \<Rightarrow> Entry \<Rightarrow> CheckWriteHook option \<Rightarrow> CheckedEntry option" where
  "After ce ent hook =
     (let ce1 = (case ce of None \<Rightarrow> (getCheckedEntry cePool_new)\<lparr>entry := ent\<rparr> | Some c \<Rightarrow> c)
      in Some (ce1\<lparr>after := hook\<rparr>))"

text \<open>
  \<^verbatim>\<open>Check\<close>. For \<^verbatim>\<open>multiCore\<close>: \<^verbatim>\<open>for i := range mc { ce = mc[i].Check(ent, ce) }\<close>.
\<close>

fun Core_Check :: "Core \<Rightarrow> Entry \<Rightarrow> CheckedEntry option \<Rightarrow> CheckedEntry option"
  and multiCore_Check :: "Core list \<Rightarrow> Entry \<Rightarrow> CheckedEntry option \<Rightarrow> CheckedEntry option" where
  "Core_Check NopCore ent ce = ce"
| "Core_Check (IoCore enab enc out) ent ce =
     (if Enabled enab (Level ent) then AddCore ce ent (IoCore enab enc out) else ce)"
| "Core_Check (MultiCore mc) ent ce = multiCore_Check mc ent ce"
| "Core_Check (LevelFilterCore c level) ent ce =
     (if \<not> Enabled level (Level ent) then ce else Core_Check c ent ce)"
| "Core_Check (Hooked c funcs) ent ce =
     (case Core_Check c ent ce of
        Some downstream \<Rightarrow> AddCore (Some downstream) ent (Hooked c funcs)
      | None \<Rightarrow> ce)"
| "multiCore_Check [] ent ce = ce"
| "multiCore_Check (c # cs) ent ce = multiCore_Check cs ent (Core_Check c ent ce)"

text \<open>
  The callbacks of \<^verbatim>\<open>hooked.Write\<close>:
  \<^verbatim>\<open>for i := range h.funcs { err = multierr.Append(err, h.funcs[i](ent)) }\<close>
\<close>

fun hooked_Write :: "HookFn list \<Rightarrow> Entry \<Rightarrow> error option \<Rightarrow> trace \<Rightarrow> error option \<times> trace" where
  "hooked_Write [] ent err tr = (err, tr)"
| "hooked_Write (f # fs) ent err tr =
     hooked_Write fs ent (multierr_Append err (hook_call f tr ent)) (tr @ [EvHook (hook_id f) ent])"

text \<open>
  \<^verbatim>\<open>Write\<close>. \<open>Cores_Write\<close> is the loop of \<^verbatim>\<open>multiCore.Write\<close>, which
  \<^verbatim>\<open>CheckedEntry.Write\<close> runs over its cores too:
  \<^verbatim>\<open>for i := range mc { err = multierr.Append(err, mc[i].Write(ent, fields)) }\<close>
\<close>

fun Core_Write :: "Core \<Rightarrow> Entry \<Rightarrow> Field list \<Rightarrow> trace \<Rightarrow> error option \<times> trace"
  and Cores_Write :: "Core list \<Rightarrow> Entry \<Rightarrow> Field list \<Rightarrow> error option \<Rightarrow> trace \<Rightarrow> error option \<times> trace" where
  "Core_Write NopCore ent flds tr = (None, tr)"
| "Core_Write (IoCore enab enc out) ent flds tr =
     (let tr1 = tr @ [EvEncode (enc_id enc) (enc_ctx enc) ent flds] in
      case EncodeEntry enc tr (enc_ctx enc) ent flds of
        Inl err \<Rightarrow> (Some err, tr1)
      | Inr buf \<Rightarrow>
          (let err = ws_Write out tr1 (Encoded buf);
               tr2 = tr1 @ [EvSinkWrite (ws_id out) (Encoded buf), EvBufferFree]
           in case err of
                Some e \<Rightarrow> (Some e, tr2)
              | None \<Rightarrow>
                  (if Level ent > ErrorLevel then (None, tr2 @ [EvSinkSync (ws_id out)])
                   else (None, tr2))))"
| "Core_Write (MultiCore mc) ent flds tr = Cores_Write mc ent flds None tr"
| "Core_Write (LevelFilterCore c level) ent flds tr = Core_Write c ent flds tr"
| "Core_Write (Hooked c funcs) ent flds tr = hooked_Write funcs ent None tr"
| "Cores_Write [] ent flds err tr = (err, tr)"
| "Cores_Write (c # cs) ent flds err tr =
     (case Core_Write c ent flds tr of
        (e, tr1) \<Rightarrow> Cores_Write cs ent flds (multierr_Append err e) tr1)"

text \<open>
  \<^verbatim>\<open>Sync\<close>. \<^verbatim>\<open>hooked\<close> embeds its core and inherits the method.
\<close>

fun Core_Sync :: "Core \<Rightarrow> trace \<Rightarrow> error option \<times> trace"
  and Cores_Sync :: "Core list \<Rightarrow> error option \<Rightarrow> trace \<Rightarrow> error option \<times> trace" where
  "Core_Sync NopCore tr = (None, tr)"
| "Core_Sync (IoCore enab enc out) tr = (ws_Sync out tr, tr @ [EvSinkSync (ws_id out)])"
| "Core_Sync (MultiCore mc) tr = Cores_Sync mc None tr"
| "Core_Sync (LevelFilterCore c level) tr = Core_Sync c tr"
| "Core_Sync (Hooked c funcs) tr = Core_Sync c tr"
| "Cores_Sync [] err tr = (err, tr)"
| "Cores_Sync (c # cs) err tr =
     (case Core_Sync c tr of (e, tr1) \<Rightarrow> Cores_Sync cs (multierr_Append err e) tr1)"

text \<open>
  \<^verbatim>\<open>CheckWriteAction.OnWrite\<close>, and the hook of a user, which leaves its mark in the
  trace.
\<close>

fun OnWrite :: "CheckWriteHook \<Rightarrow> CheckedEntry \<Rightarrow> Field list \<Rightarrow> trace \<Rightarrow> outcome \<times> trace" where
  "OnWrite (Action WriteThenNoop) ce flds tr = (Returned, tr)"
| "OnWrite (Action WriteThenGoexit) ce flds tr = (Goexit, tr)"
| "OnWrite (Action WriteThenPanic) ce flds tr = (Panicked (Message (entry ce)), tr)"
| "OnWrite (Action WriteThenFatal) ce flds tr = (Exited 1, tr)"
| "OnWrite (CustomHook i oc) ce flds tr = (oc, tr @ [EvOnWrite i flds])"

text \<open>
  \<^verbatim>\<open>CheckedEntry.Write\<close>. The result is the state of the instance after the call, how
  the call ended, and the trace. \<^verbatim>\<open>putCheckedEntry\<close> is reached only when the hook
  returns.
\<close>

definition CheckedEntry_Write ::
    "CheckedEntry option \<Rightarrow> Field list \<Rightarrow> trace \<Rightarrow> CheckedEntry option \<times> outcome \<times> trace" where
  "CheckedEntry_Write ce flds tr =
     (case ce of
        None \<Rightarrow> (None, Returned, tr)
      | Some c \<Rightarrow>
          if dirty c then
            (case ErrorOutput c of
               Some w \<Rightarrow>
                 (Some c, Returned,
                  tr @ [EvSinkWrite (ws_id w) (UnsafeReuseLine (Time (entry c)) (entry c)),
                        EvSinkSync (ws_id w)])
             | None \<Rightarrow> (Some c, Returned, tr))
          else
            (let c1 = c\<lparr>dirty := True\<rparr> in
             case Cores_Write (cores c1) (entry c1) flds None tr of
               (err, tr1) \<Rightarrow>
                 (let tr2 =
                        (case (err, ErrorOutput c1) of
                           (Some e, Some w) \<Rightarrow>
                             tr1 @ [EvSinkWrite (ws_id w) (WriteErrorLine (Time (entry c1)) e),
                                    EvSinkSync (ws_id w)]
                         | _ \<Rightarrow> tr1)
                  in case after c1 of
                       None \<Rightarrow> (Some c1, Returned, tr2 @ [EvPoolPut])
                     | Some hook \<Rightarrow>
                         (case OnWrite hook c1 flds tr2 of
                            (Returned, tr3) \<Rightarrow> (Some c1, Returned, tr3 @ [EvPoolPut])
                          | (oc, tr3) \<Rightarrow> (Some c1, oc, tr3)))))"

section \<open>Stack capture and the logger's check (internal/stacktrace/stack.go, logger.go)\<close>

record Frame =
  frame_PC :: nat
  frame_File :: string
  frame_Line :: int
  frame_Function :: string

datatype Depth = First | Full

text \<open>
  \<^verbatim>\<open>Capture\<close> asks the runtime for the callers above \<^verbatim>\<open>skip + 2\<close> frames, the first one
  only or all of them. The runtime is the parameter \<open>callers\<close>.
\<close>

definition Capture :: "(int \<Rightarrow> Frame list) \<Rightarrow> int \<Rightarrow> Depth \<Rightarrow> Frame list" where
  "Capture callers skip depth =
     (case depth of
        First \<Rightarrow> take 1 (callers (skip + 2))
      | Full \<Rightarrow> callers (skip + 2))"

text \<open>\<^verbatim>\<open>Buffer.AppendInt\<close>: the decimal digits of an integer.\<close>

function digits :: "nat \<Rightarrow> string" where
  "digits n = (if n < 10 then [char_of (48 + n)] else digits (n div 10) @ [char_of (48 + n mod 10)])"
  by pat_completeness auto
termination
  by (relation "measure id") auto

declare digits.simps [simp del]

definition AppendInt :: "int \<Rightarrow> string" where
  "AppendInt i = (if i < 0 then CHR ''-'' # digits (nat (- i)) else digits (nat i))"

text \<open>
  \<^verbatim>\<open>Formatter.FormatFrame\<close> and \<^verbatim>\<open>Formatter.FormatStack\<close>; the flag is the
  formatter's \<^verbatim>\<open>nonEmpty\<close>. \<^verbatim>\<open>FormatStack\<close> stops at the frame for which
  \<^verbatim>\<open>Next\<close> reports that no more follow, without formatting it.
\<close>

definition FormatFrame :: "bool \<Rightarrow> Frame \<Rightarrow> string" where
  "FormatFrame nonEmpty frame =
     (if nonEmpty then [CHR 0x0A] else []) @ frame_Function frame @ [CHR 0x0A, CHR 0x09]
       @ frame_File frame @ [CHR '':''] @ AppendInt (frame_Line frame)"

fun FormatStack :: "bool \<Rightarrow> Frame list \<Rightarrow> string" where
  "FormatStack nonEmpty [] = []"
| "FormatStack nonEmpty [frame] = []"
| "FormatStack nonEmpty (frame # rest) = FormatFrame nonEmpty frame @ FormatStack True rest"

record Logger =
  core :: Core
  development :: bool
  addCaller :: bool
  onPanic :: "CheckWriteHook option"
  onFatal :: "CheckWriteHook option"
  name :: string
  errorOutput :: WriteSyncer
  addStack :: LevelEnabler
  callerSkip :: int
  clock :: int

text \<open>
  \<^verbatim>\<open>if override == nil || override == zapcore.WriteThenNoop { return defaultHook }
  return override\<close>
\<close>

definition terminalHookOverride ::
    "CheckWriteHook option \<Rightarrow> CheckWriteHook option \<Rightarrow> CheckWriteHook option" where
  "terminalHookOverride defaultHook override =
     (if override = None \<or> override = Some (Action WriteThenNoop) then defaultHook
      else override)"

text \<open>
  \<^verbatim>\<open>Logger.check\<close>. The field \<open>clock\<close> is what \<^verbatim>\<open>log.clock.Now()\<close> returns. When
  \<^verbatim>\<open>willWrite\<close> holds the entry is not \<^verbatim>\<open>nil\<close>, so the branch \<open>None\<close> of the second case
  distinction is never taken.
\<close>

definition Logger_check ::
    "Logger \<Rightarrow> (int \<Rightarrow> Frame list) \<Rightarrow> Level \<Rightarrow> string \<Rightarrow> trace \<Rightarrow> CheckedEntry option \<times> trace" where
  "Logger_check log callers lvl msg tr =
     (if lvl < DPanicLevel \<and> \<not> Core_Enabled (core log) lvl then (None, tr)
      else
        (let ent = \<lparr>Level = lvl, Time = clock log, LoggerName = name log, Message = msg,
                    Caller = Caller Entry_zero, Stack = []\<rparr>;
             ce0 = Core_Check (core log) ent None;
             willWrite = (ce0 \<noteq> None);
             ce1 =
               (if Level ent = PanicLevel then
                  After ce0 ent (terminalHookOverride (Some (Action WriteThenPanic)) (onPanic log))
                else if Level ent = FatalLevel then
                  After ce0 ent (terminalHookOverride (Some (Action WriteThenFatal)) (onFatal log))
                else if Level ent = DPanicLevel then
                  (if development log then
                     After ce0 ent (terminalHookOverride (Some (Action WriteThenPanic)) (onPanic log))
                   else ce0)
                else ce0)
         in if \<not> willWrite then (ce1, tr)
            else
              (case ce1 of
                 None \<Rightarrow> (None, tr)
               | Some c1 \<Rightarrow>
                   (let c2 = c1\<lparr>ErrorOutput := Some (errorOutput log)\<rparr>;
                        addStk = Enabled (addStack log) (Level (entry c2))
                    in if \<not> addCaller log \<and> \<not> addStk then (Some c2, tr)
                       else
                         (case Capture callers (callerSkip log + 2) (if addStk then Full else First) of
                            [] \<Rightarrow>
                              (if addCaller log then
                                 (Some c2,
                                  tr @ [EvSinkWrite (ws_id (errorOutput log)) (CallerErrorLine (Time ent)),
                                        EvSinkSync (ws_id (errorOutput log))])
                               else (Some c2, tr))
                          | frame # rest \<Rightarrow>
                              (let c3 =
                                     (if addCaller log then
                                        c2\<lparr>entry := (entry c2)\<lparr>Caller :=
                                          \<lparr>Defined = (frame_PC frame \<noteq> 0), PC = frame_PC frame,
                                           File = frame_File frame, Line = frame_Line frame,
                                           Function = frame_Function frame\<rparr>\<rparr>\<rparr>
                                      else c2);
                                   c4 =
                                     (if addStk then
                                        c3\<lparr>entry := (entry c3)\<lparr>Stack :=
                                          FormatFrame False frame
                                            @ (if rest \<noteq> [] then FormatStack True rest else [])\<rparr>\<rparr>
                                      else c3)
                               in (Some c4, tr)))))))"

section \<open>The pool of checked entries (internal/pool/pool.go, zapcore/entry.go)\<close>

text \<open>
  A \<^verbatim>\<open>*CheckedEntry\<close> is the address of an instance. The store holds the instances, the
  addresses that sit in \<^verbatim>\<open>_cePool\<close>, and the next address \<^verbatim>\<open>New\<close> allocates at. Two
  handles with the same address are the same instance, whoever holds them.
\<close>

record ce_store =
  st_heap :: "nat \<Rightarrow> CheckedEntry"
  st_pool :: "nat list"
  st_fresh :: nat

text \<open>
  Modelled from the spec: \<^verbatim>\<open>pool.Pool\<close> wraps \<^verbatim>\<open>sync.Pool\<close> of Go's standard library,
  which is not part of the sources. \<^verbatim>\<open>Get\<close> hands out one of the instances that were put
  back, taking it out of the pool, or a new one made by \<^verbatim>\<open>New\<close>; \<^verbatim>\<open>Put\<close> puts an
  instance back. Which instance \<^verbatim>\<open>Get\<close> hands out is left open by the library: it is the
  parameter \<open>pick\<close>, which names a position in the pool or asks for a new instance.
\<close>

definition Pool_New :: "ce_store \<Rightarrow> nat \<times> ce_store" where
  "Pool_New st =
     (st_fresh st,
      st\<lparr>st_heap := (st_heap st)(st_fresh st := cePool_new), st_fresh := Suc (st_fresh st)\<rparr>)"

definition Pool_Get :: "(nat list \<Rightarrow> nat option) \<Rightarrow> ce_store \<Rightarrow> nat \<times> ce_store" where
  "Pool_Get pick st =
     (case pick (st_pool st) of
        None \<Rightarrow> Pool_New st
      | Some i \<Rightarrow>
          (if i < length (st_pool st) then
             (st_pool st ! i, st\<lparr>st_pool := take i (st_pool st) @ drop (Suc i) (st_pool st)\<rparr>)
           else Pool_New st))"

definition Pool_Put :: "nat \<Rightarrow> ce_store \<Rightarrow> ce_store" where
  "Pool_Put a st = st\<lparr>st_pool := a # st_pool st\<rparr>"

text \<open>
  \<^verbatim>\<open>getCheckedEntry\<close>: \<^verbatim>\<open>ce := _cePool.Get(); ce.reset(); return ce\<close>, and
  \<^verbatim>\<open>putCheckedEntry\<close>, which ignores \<^verbatim>\<open>nil\<close>.
\<close>

definition getCheckedEntry_ptr :: "(nat list \<Rightarrow> nat option) \<Rightarrow> ce_store \<Rightarrow> nat \<times> ce_store" where
  "getCheckedEntry_ptr pick st =
     (case Pool_Get pick st of
        (a, st1) \<Rightarrow> (a, st1\<lparr>st_heap := (st_heap st1)(a := reset (st_heap st1 a))\<rparr>))"

definition putCheckedEntry_ptr :: "nat option \<Rightarrow> ce_store \<Rightarrow> ce_store" where
  "putCheckedEntry_ptr ce st = (case ce of None \<Rightarrow> st | Some a \<Rightarrow> Pool_Put a st)"

text \<open>
  \<^verbatim>\<open>AddCore\<close> and \<^verbatim>\<open>After\<close> on handles: a \<^verbatim>\<open>nil\<close> receiver takes an instance from the
  pool and stores the entry in it; the core is appended to, or the hook stored in, the
  instance the handle points to.
\<close>

definition AddCore_ptr ::
    "(nat list \<Rightarrow> nat option) \<Rightarrow> nat option \<Rightarrow> Entry \<Rightarrow> Core \<Rightarrow> ce_store \<Rightarrow> nat option \<times> ce_store" where
  "AddCore_ptr pick ce ent cr st =
     (case (case ce of
              None \<Rightarrow>
                (case getCheckedEntry_ptr pick st of
                   (a, st1) \<Rightarrow> (a, st1\<lparr>st_heap := (st_heap st1)(a := (st_heap st1 a)\<lparr>entry := ent\<rparr>)\<rparr>))
            | Some a \<Rightarrow> (a, st)) of
        (a, st2) \<Rightarrow>
          (Some a,
           st2\<lparr>st_heap := (st_heap st2)(a := (st_heap st2 a)\<lparr>cores := cores (st_heap st2 a) @ [cr]\<rparr>)\<rparr>))"

definition After_ptr ::
    "(nat list \<Rightarrow> nat option) \<Rightarrow> nat option \<Rightarrow> Entry \<Rightarrow> CheckWriteHook option \<Rightarrow> ce_store
      \<Rightarrow> nat option \<times> ce_store" where
  "After_ptr pick ce ent hook st =
     (case (case ce of
              None \<Rightarrow>
                (case getCheckedEntry_ptr pick st of
                   (a, st1) \<Rightarrow> (a, st1\<lparr>st_heap := (st_heap st1)(a := (st_heap st1 a)\<lparr>entry := ent\<rparr>)\<rparr>))
            | Some a \<Rightarrow> (a, st)) of
        (a, st2) \<Rightarrow>
          (Some a, st2\<lparr>st_heap := (st_heap st2)(a := (st_heap st2 a)\<lparr>after := hook\<rparr>)\<rparr>))"

text \<open>
  \<^verbatim>\<open>CheckedEntry.Write\<close> on a handle. It reads and marks the instance in the store, and
  hands it back to the pool with \<^verbatim>\<open>putCheckedEntry\<close> when it gets that far.
\<close>

definition Write_ptr ::
    "nat option \<Rightarrow> Field list \<Rightarrow> trace \<Rightarrow> ce_store \<Rightarrow> outcome \<times> trace \<times> ce_store" where
  "Write_ptr ce flds tr st =
     (case ce of
        None \<Rightarrow> (Returned, tr, st)
      | Some a \<Rightarrow>
          if dirty (st_heap st a) then
            (case ErrorOutput (st_heap st a) of
               Some w \<Rightarrow>
                 (Returned,
                  tr @ [EvSinkWrite (ws_id w)
                          (UnsafeReuseLine (Time (entry (st_heap st a))) (entry (st_heap st a))),
                        EvSinkSync (ws_id w)],
                  st)
             | None \<Rightarrow> (Returned, tr, st))
          else
            (let st1 = st\<lparr>st_heap := (st_heap st)(a := (st_heap st a)\<lparr>dirty := True\<rparr>)\<rparr>;
                 c1 = st_heap st1 a
             in case Cores_Write (cores c1) (entry c1) flds None tr of
                  (err, tr1) \<Rightarrow>
                    (let tr2 =
                           (case (err, ErrorOutput c1) of
                              (Some e, Some w) \<Rightarrow>
                                tr1 @ [EvSinkWrite (ws_id w) (WriteErrorLine (Time (entry c1)) e),
                                       EvSinkSync (ws_id w)]
                            | _ \<Rightarrow> tr1)
                     in case after c1 of
                          None \<Rightarrow> (Returned, tr2 @ [EvPoolPut], putCheckedEntry_ptr (Some a) st1)
                        | Some hook \<Rightarrow>
                            (case OnWrite hook c1 flds tr2 of
                               (Returned, tr3) \<Rightarrow>
                                 (Returned, tr3 @ [EvPoolPut], putCheckedEntry_ptr (Some a) st1)
                             | (oc, tr3) \<Rightarrow> (oc, tr3, st1)))))"

section \<open>Observing the trace\<close>

text \<open>
  The events that only the \<^verbatim>\<open>Write\<close> of a core produces: an \<^verbatim>\<open>ioCore\<close> starts by encoding
  the entry and sends the encoded bytes to its sink, a \<^verbatim>\<open>hooked\<close> core runs its callbacks.
  A stretch of the trace without such an event contains no \<^verbatim>\<open>Write\<close> of a core that does
  anything.
\<close>

fun is_core_write :: "event \<Rightarrow> bool" where
  "is_core_write (EvEncode i ctx ent flds) = True"
| "is_core_write (EvSinkWrite i (Encoded buf)) = True"
| "is_core_write (EvHook i ent) = True"
| "is_core_write ev = False"

section \<open>Objects used to exercise the theorems\<close>

definition enc0 :: Encoder where
  "enc0 = \<lparr>enc_id = 0, enc_ctx = [], EncodeEntry = (\<lambda>tr ctx ent flds. Inr (Message ent))\<rparr>"

definition enc_bad :: Encoder where
  "enc_bad = \<lparr>enc_id = 1, enc_ctx = [], EncodeEntry = (\<lambda>tr ctx ent flds. Inl (ErrOther ''encode''))\<rparr>"

definition ws0 :: WriteSyncer where
  "ws0 = \<lparr>ws_id = 0, ws_Write = (\<lambda>tr p. None), ws_Sync = (\<lambda>tr. None)\<rparr>"

definition ws_bad :: WriteSyncer where
  "ws_bad = \<lparr>ws_id = 1, ws_Write = (\<lambda>tr p. Some (ErrOther ''disk full'')), ws_Sync = (\<lambda>tr. Some (ErrOther ''sync''))\<rparr>"

definition ent0 :: Entry where
  "ent0 = Entry_zero\<lparr>Level := FatalLevel, Message := ''boom''\<rparr>"

definition ent_info :: Entry where
  "ent_info = Entry_zero\<lparr>Level := InfoLevel, Message := ''hello''\<rparr>"

definition enc5 :: Encoder where
  "enc5 = \<lparr>enc_id = 5, enc_ctx = [], EncodeEntry = (\<lambda>tr ctx ent flds. Inr (Message ent))\<rparr>"

definition coreA :: Core where
  "coreA = IoCore (LevelEnab DebugLevel) enc0 ws0"

definition coreB :: Core where
  "coreB = IoCore (LevelEnab DebugLevel) enc5 ws0"

text \<open>
  A pool that hands out the instance put back last, and a run on it: an entry is obtained
  for \<open>coreA\<close>, given an error output and written (\<open>store2\<close>, \<open>trace2\<close>); then another
  entry is obtained for \<open>coreB\<close> (\<open>store3\<close>).
\<close>

definition pick_last :: "nat list \<Rightarrow> nat option" where
  "pick_last pool = (if pool = [] then None else Some 0)"

definition store0 :: ce_store where
  "store0 = \<lparr>st_heap = (\<lambda>a. cePool_new), st_pool = [], st_fresh = 0\<rparr>"

definition store1 :: ce_store where
  "store1 =
     (snd (AddCore_ptr pick_last None ent0 coreA store0))
       \<lparr>st_heap := (st_heap (snd (AddCore_ptr pick_last None ent0 coreA store0)))
          (0 := (st_heap (snd (AddCore_ptr pick_last None ent0 coreA store0)) 0)
                  \<lparr>ErrorOutput := Some ws_bad\<rparr>)\<rparr>"

definition trace2 :: trace where
  "trace2 = fst (snd (Write_ptr (Some 0) [] [] store1))"

definition store2 :: ce_store where
  "store2 = snd (snd (Write_ptr (Some 0) [] [] store1))"

definition store3 :: ce_store where
  "store3 = snd (AddCore_ptr pick_last None ent0 coreB store2)"

definition log0 :: Logger where
  "log0 =
     \<lparr>core = NopCore, development = False, addCaller = False,
      onPanic = None, onFatal = Some (Action WriteThenNoop), name = ''log'',
      errorOutput = ws0, addStack = LevelEnab (FatalLevel + 1), callerSkip = 0, clock = 7\<rparr>"

definition hook_ok :: HookFn where
  "hook_ok = \<lparr>hook_id = 0, hook_call = (\<lambda>tr ent. None)\<rparr>"

definition hook_err :: HookFn where
  "hook_err = \<lparr>hook_id = 1, hook_call = (\<lambda>tr ent. Some (ErrOther ''E''))\<rparr>"

section \<open>Level probing and the level filter\<close>

lemmas level_defs =
  DebugLevel_def InfoLevel_def WarnLevel_def ErrorLevel_def DPanicLevel_def
  PanicLevel_def FatalLevel_def minLevel_def maxLevel_def InvalidLevel_def

lemma LevelOf_probe_found:
  "lvl \<le> l \<Longrightarrow> l \<le> maxLevel \<Longrightarrow> en l \<Longrightarrow> (\<forall>k. lvl \<le> k \<and> k < l \<longrightarrow> \<not> en k)
     \<Longrightarrow> LevelOf_probe en lvl = l"
proof (induction en lvl rule: LevelOf_probe.induct)
  case (1 en lvl)
  show ?case
  proof (cases "lvl = l")
    case True
    with "1.prems" show ?thesis by (subst LevelOf_probe.simps) simp
  next
    case False
    with "1.prems" have lt: "lvl < l" and ne: "\<not> en lvl" by auto
    from "1.prems" lt have le: "lvl \<le> maxLevel" by simp
    have "LevelOf_probe en (lvl + 1) = l"
      using "1.IH"[OF le ne] "1.prems" lt by auto
    with le ne show ?thesis by (subst LevelOf_probe.simps) simp
  qed
qed

lemma LevelOf_probe_none:
  "(\<forall>k. lvl \<le> k \<and> k \<le> maxLevel \<longrightarrow> \<not> en k) \<Longrightarrow> LevelOf_probe en lvl = InvalidLevel"
proof (induction en lvl rule: LevelOf_probe.induct)
  case (1 en lvl)
  show ?case
  proof (cases "lvl \<le> maxLevel")
    case True
    with "1.prems" have ne: "\<not> en lvl" by simp
    have "LevelOf_probe en (lvl + 1) = InvalidLevel"
      using "1.IH"[OF True ne] "1.prems" by auto
    with True ne show ?thesis by (subst LevelOf_probe.simps) simp
  next
    case False
    then show ?thesis by (subst LevelOf_probe.simps) simp
  qed
qed

text \<open>
  Claim C8. If the enabler reports its own level, \<^verbatim>\<open>LevelOf\<close> returns that level. Otherwise
  it returns the smallest level between \<^verbatim>\<open>DebugLevel\<close> and \<^verbatim>\<open>FatalLevel\<close> that the
  enabler enables, and \<^verbatim>\<open>InvalidLevel\<close> when it enables none of them.
\<close>

theorem LevelOf_spec:
  "(\<forall>l. LevelFn e = Some l \<longrightarrow> LevelOf e = l)
   \<and> (\<forall>l. LevelFn e = None \<and> minLevel \<le> l \<and> l \<le> maxLevel \<and> Enabled e l
          \<and> (\<forall>k. minLevel \<le> k \<and> k < l \<longrightarrow> \<not> Enabled e k) \<longrightarrow> LevelOf e = l)
   \<and> (LevelFn e = None \<and> (\<forall>k. minLevel \<le> k \<and> k \<le> maxLevel \<longrightarrow> \<not> Enabled e k)
          \<longrightarrow> LevelOf e = InvalidLevel)"
  by (auto simp: LevelOf_def LevelOf_probe_found LevelOf_probe_none)

theorem LevelOf_spec_witness:
  "LevelOf (AtomicLevel ErrorLevel) = ErrorLevel
   \<and> LevelOf (LevelEnab WarnLevel) = WarnLevel
   \<and> LevelOf (LevelEnablerFunc (\<lambda>l. False)) = InvalidLevel"
proof -
  have a: "LevelFn (AtomicLevel ErrorLevel) = Some ErrorLevel"
    by (simp add: AtomicLevel_def)
  have b: "LevelFn (LevelEnab WarnLevel) = None \<and> minLevel \<le> WarnLevel \<and> WarnLevel \<le> maxLevel
      \<and> Enabled (LevelEnab WarnLevel) WarnLevel
      \<and> (\<forall>k. minLevel \<le> k \<and> k < WarnLevel \<longrightarrow> \<not> Enabled (LevelEnab WarnLevel) k)"
    by (simp add: LevelEnab_def Level_Enabled_def level_defs)
  have c: "LevelFn (LevelEnablerFunc (\<lambda>l. False)) = None
      \<and> (\<forall>k. minLevel \<le> k \<and> k \<le> maxLevel \<longrightarrow> \<not> Enabled (LevelEnablerFunc (\<lambda>l. False)) k)"
    by (simp add: LevelEnablerFunc_def)
  from a LevelOf_spec[of "AtomicLevel ErrorLevel"] have 1: "LevelOf (AtomicLevel ErrorLevel) = ErrorLevel"
    by blast
  from b LevelOf_spec[of "LevelEnab WarnLevel"] have 2: "LevelOf (LevelEnab WarnLevel) = WarnLevel"
    by blast
  from c LevelOf_spec[of "LevelEnablerFunc (\<lambda>l. False)"]
  have 3: "LevelOf (LevelEnablerFunc (\<lambda>l. False)) = InvalidLevel"
    by blast
  from 1 2 3 show ?thesis by simp
qed

lemma increase_check_None:
  "increase_check cr level n = None
     \<longleftrightarrow> (\<forall>l. minLevel \<le> l \<and> l \<le> n \<longrightarrow> \<not> (\<not> Core_Enabled cr l \<and> Enabled level l))"
proof (induction cr level n rule: increase_check.induct)
  case (1 cr level l)
  show ?case
  proof (cases "l \<ge> minLevel")
    case ge: True
    show ?thesis
    proof (cases "\<not> Core_Enabled cr l \<and> Enabled level l")
      case True
      with ge show ?thesis
        by (subst increase_check.simps) auto
    next
      case False
      have step: "increase_check cr level l = increase_check cr level (l - 1)"
        using ge False by (subst increase_check.simps) auto
      have "(\<forall>k. minLevel \<le> k \<and> k \<le> l \<longrightarrow> \<not> (\<not> Core_Enabled cr k \<and> Enabled level k))
          \<longleftrightarrow> (\<forall>k. minLevel \<le> k \<and> k \<le> l - 1 \<longrightarrow> \<not> (\<not> Core_Enabled cr k \<and> Enabled level k))"
      proof
        assume h: "\<forall>k. minLevel \<le> k \<and> k \<le> l - 1 \<longrightarrow> \<not> (\<not> Core_Enabled cr k \<and> Enabled level k)"
        show "\<forall>k. minLevel \<le> k \<and> k \<le> l \<longrightarrow> \<not> (\<not> Core_Enabled cr k \<and> Enabled level k)"
        proof (intro allI impI)
          fix k assume k: "minLevel \<le> k \<and> k \<le> l"
          show "\<not> (\<not> Core_Enabled cr k \<and> Enabled level k)"
          proof (cases "k = l")
            case True with False show ?thesis by simp
          next
            case False with k h show ?thesis by simp
          qed
        qed
      qed auto
      with step "1.IH"[OF ge False] show ?thesis by simp
    qed
  next
    case False
    then show ?thesis by (subst increase_check.simps) auto
  qed
qed

text \<open>
  Claim C1. \<^verbatim>\<open>NewIncreaseLevelCore\<close> returns an error exactly when some level between
  \<^verbatim>\<open>DebugLevel\<close> and \<^verbatim>\<open>FatalLevel\<close> is disabled by the core and enabled by the new
  enabler; when it succeeds, the returned core enables exactly the levels the new enabler
  enables.
\<close>

theorem NewIncreaseLevelCore_spec:
  "((\<exists>err. NewIncreaseLevelCore cr level = Inl err)
      \<longleftrightarrow> (\<exists>l. minLevel \<le> l \<and> l \<le> maxLevel \<and> \<not> Core_Enabled cr l \<and> Enabled level l))
   \<and> (\<forall>c. NewIncreaseLevelCore cr level = Inr c
          \<longrightarrow> (\<forall>l. Core_Enabled c l = Enabled level l))"
proof -
  have iff: "increase_check cr level maxLevel = None
     \<longleftrightarrow> \<not> (\<exists>l. minLevel \<le> l \<and> l \<le> maxLevel \<and> \<not> Core_Enabled cr l \<and> Enabled level l)"
    by (simp add: increase_check_None) blast
  show ?thesis
  proof (cases "increase_check cr level maxLevel")
    case None
    with iff show ?thesis by (auto simp: NewIncreaseLevelCore_def)
  next
    case (Some e)
    with iff show ?thesis by (auto simp: NewIncreaseLevelCore_def)
  qed
qed

theorem NewIncreaseLevelCore_spec_witness:
  "(\<exists>err. NewIncreaseLevelCore (IoCore (LevelEnab ErrorLevel) enc0 ws0) (LevelEnab WarnLevel) = Inl err)
   \<and> NewIncreaseLevelCore (IoCore (LevelEnab InfoLevel) enc0 ws0) (LevelEnab ErrorLevel)
       = Inr (LevelFilterCore (IoCore (LevelEnab InfoLevel) enc0 ws0) (LevelEnab ErrorLevel))
   \<and> Core_Enabled (LevelFilterCore (IoCore (LevelEnab InfoLevel) enc0 ws0) (LevelEnab ErrorLevel)) ErrorLevel
   \<and> \<not> Core_Enabled (LevelFilterCore (IoCore (LevelEnab InfoLevel) enc0 ws0) (LevelEnab ErrorLevel)) WarnLevel"
proof -
  let ?c1 = "IoCore (LevelEnab ErrorLevel) enc0 ws0"
  let ?c2 = "IoCore (LevelEnab InfoLevel) enc0 ws0"
  have "minLevel \<le> WarnLevel \<and> WarnLevel \<le> maxLevel \<and> \<not> Core_Enabled ?c1 WarnLevel
      \<and> Enabled (LevelEnab WarnLevel) WarnLevel"
    by (simp add: LevelEnab_def Level_Enabled_def level_defs)
  then have "\<exists>l. minLevel \<le> l \<and> l \<le> maxLevel \<and> \<not> Core_Enabled ?c1 l \<and> Enabled (LevelEnab WarnLevel) l"
    by blast
  with NewIncreaseLevelCore_spec[of ?c1 "LevelEnab WarnLevel"]
  have 1: "\<exists>err. NewIncreaseLevelCore ?c1 (LevelEnab WarnLevel) = Inl err" by blast
  have "\<not> (\<exists>l. minLevel \<le> l \<and> l \<le> maxLevel \<and> \<not> Core_Enabled ?c2 l \<and> Enabled (LevelEnab ErrorLevel) l)"
    by (auto simp: LevelEnab_def Level_Enabled_def level_defs)
  with NewIncreaseLevelCore_spec[of ?c2 "LevelEnab ErrorLevel"]
  have no: "\<not> (\<exists>err. NewIncreaseLevelCore ?c2 (LevelEnab ErrorLevel) = Inl err)" by blast
  then have 2: "NewIncreaseLevelCore ?c2 (LevelEnab ErrorLevel) = Inr (LevelFilterCore ?c2 (LevelEnab ErrorLevel))"
    by (auto simp: NewIncreaseLevelCore_def split: option.splits)
  from NewIncreaseLevelCore_spec[of ?c2 "LevelEnab ErrorLevel"] 2
  have 3: "\<forall>l. Core_Enabled (LevelFilterCore ?c2 (LevelEnab ErrorLevel)) l = Enabled (LevelEnab ErrorLevel) l"
    by blast
  have 4: "Enabled (LevelEnab ErrorLevel) ErrorLevel \<and> \<not> Enabled (LevelEnab ErrorLevel) WarnLevel"
    by (simp add: LevelEnab_def Level_Enabled_def level_defs)
  from 1 2 3 4 show ?thesis by blast
qed

section \<open>The tee and the level filter under \<^verbatim>\<open>With\<close>\<close>

text \<open>
  The loops of \<^verbatim>\<open>multiCore.Enabled\<close> and \<^verbatim>\<open>multiCore.Level\<close> in closed form: the first
  is the disjunction over the children, the second the minimum of its start value and the
  children's levels.
\<close>

lemma multiCore_Enabled_iff:
  "multiCore_Enabled mc lvl \<longleftrightarrow> (\<exists>c \<in> set mc. Core_Enabled c lvl)"
  by (induction mc) auto

lemma multiCore_Level_Min:
  "multiCore_Level cs m = Min (insert m ((\<lambda>c. LevelOf (Core_enabler c)) ` set cs))"
proof (induction cs arbitrary: m)
  case Nil
  show ?case by simp
next
  case (Cons c cs)
  let ?S = "(\<lambda>c. LevelOf (Core_enabler c)) ` set cs"
  let ?l = "LevelOf (Core_enabler c)"
  have fin: "finite ?S" by simp
  have "(if ?l < m then ?l else m) = min ?l m" by (simp add: min_def)
  then have "multiCore_Level (c # cs) m = multiCore_Level cs (min ?l m)"
    by (simp add: Core_enabler_def Let_def)
  also have "\<dots> = Min (insert (min ?l m) ?S)"
    by (rule Cons.IH)
  also have "\<dots> = Min (insert ?l (insert m ?S))"
  proof -
    have "Min (insert ?l (insert m ?S)) = min ?l (Min (insert m ?S))"
      using fin by (simp add: Min_insert)
    also have "\<dots> = min ?l (if ?S = {} then m else min m (Min ?S))"
      using fin by simp
    also have "\<dots> = (if ?S = {} then min ?l m else min (min ?l m) (Min ?S))"
      by (simp add: min.assoc)
    also have "\<dots> = Min (insert (min ?l m) ?S)"
      using fin by simp
    finally show ?thesis by simp
  qed
  also have "insert ?l (insert m ?S) = insert m ((\<lambda>c. LevelOf (Core_enabler c)) ` set (c # cs))"
    by auto
  finally show ?case .
qed

lemma multiCore_Level_le_maxLevel: "multiCore_Level cs maxLevel \<le> maxLevel"
  by (simp add: multiCore_Level_Min)

text \<open>
  Claim C3. The tee of cores enables a level exactly when one of its children does, and its
  \<^verbatim>\<open>Level()\<close> is the minimum of \<^verbatim>\<open>LevelOf\<close> over the children. The second part fails
  for the tee of two no-op cores: each child has level \<^verbatim>\<open>InvalidLevel\<close>, so the minimum
  is \<^verbatim>\<open>InvalidLevel\<close>, but the loop starts from \<^verbatim>\<open>_maxLevel\<close> and the tee reports
  \<^verbatim>\<open>FatalLevel\<close>, a level it does not enable.
\<close>

theorem multiCore_Level_two_nop:
  "NewTee [NopCore, NopCore] = MultiCore [NopCore, NopCore]
   \<and> Core_LevelFn (NewTee [NopCore, NopCore]) = Some FatalLevel
   \<and> LevelOf (Core_enabler (NewTee [NopCore, NopCore])) = FatalLevel
   \<and> LevelOf (Core_enabler NopCore) = InvalidLevel
   \<and> Min ((\<lambda>c. LevelOf (Core_enabler c)) ` set [NopCore, NopCore]) = InvalidLevel
   \<and> FatalLevel \<noteq> InvalidLevel
   \<and> \<not> Core_Enabled (NewTee [NopCore, NopCore]) FatalLevel"
proof -
  have nop: "LevelOf (Core_enabler NopCore) = InvalidLevel"
    by (simp add: LevelOf_def Core_enabler_def LevelOf_probe.simps level_defs)
  then have lvl: "multiCore_Level [NopCore, NopCore] maxLevel = FatalLevel"
    by (simp add: Core_enabler_def level_defs)
  show ?thesis
    using nop lvl by (simp add: LevelOf_def Core_enabler_def level_defs)
qed

lemma Core_neq_MultiCore_single: "c \<noteq> MultiCore [c]"
proof
  assume "c = MultiCore [c]"
  then have "size c = size (MultiCore [c])" by simp
  then show False by simp
qed

text \<open>
  Claim C9. \<^verbatim>\<open>NewTee\<close> of no core is the no-op core: it enables no level, and its
  \<^verbatim>\<open>Write\<close> and \<^verbatim>\<open>Sync\<close> return \<^verbatim>\<open>nil\<close> and do nothing. \<^verbatim>\<open>NewTee\<close> of one
  core is that core. It wraps its arguments in a \<^verbatim>\<open>multiCore\<close> exactly when there are two
  or more.
\<close>

theorem NewTee_spec:
  "NewTee [] = NopCore
   \<and> (\<forall>l. \<not> Core_Enabled (NewTee []) l)
   \<and> (\<forall>ent flds tr. Core_Write (NewTee []) ent flds tr = (None, tr))
   \<and> (\<forall>tr. Core_Sync (NewTee []) tr = (None, tr))
   \<and> NewTee [c] = c
   \<and> (NewTee cs = MultiCore cs \<longleftrightarrow> 2 \<le> length cs)"
proof -
  have "NewTee cs = MultiCore cs \<longleftrightarrow> 2 \<le> length cs"
  proof (cases cs)
    case Nil
    then show ?thesis by simp
  next
    case (Cons a as)
    then show ?thesis
      using Core_neq_MultiCore_single[of a] by (cases as) auto
  qed
  then show ?thesis by simp
qed

text \<open>
  Claim C10. For a core built by a successful \<^verbatim>\<open>NewIncreaseLevelCore\<close>, \<^verbatim>\<open>With\<close>
  returns a level filter with the same enabler around the inner core's \<^verbatim>\<open>With\<close>; the
  levels it enables are those of the original, which are those of the enabler.
\<close>

theorem levelFilterCore_With_spec:
  "NewIncreaseLevelCore cr level = Inr c \<Longrightarrow>
     Core_With c flds = LevelFilterCore (Core_With cr flds) level
     \<and> (\<forall>l. Core_Enabled (Core_With c flds) l = Core_Enabled c l)
     \<and> (\<forall>l. Core_Enabled (Core_With c flds) l = Enabled level l)"
  by (auto simp: NewIncreaseLevelCore_def split: option.splits)

theorem levelFilterCore_With_spec_witness:
  "NewIncreaseLevelCore (IoCore (LevelEnab InfoLevel) enc0 ws0) (LevelEnab ErrorLevel)
     = Inr (LevelFilterCore (IoCore (LevelEnab InfoLevel) enc0 ws0) (LevelEnab ErrorLevel))
   \<and> Core_With (LevelFilterCore (IoCore (LevelEnab InfoLevel) enc0 ws0) (LevelEnab ErrorLevel))
        [Field ''k'' ''v'']
     = LevelFilterCore (IoCore (LevelEnab InfoLevel) (enc0\<lparr>enc_ctx := [Field ''k'' ''v'']\<rparr>) ws0)
         (LevelEnab ErrorLevel)
   \<and> \<not> Core_Enabled (Core_With (LevelFilterCore (IoCore (LevelEnab InfoLevel) enc0 ws0)
           (LevelEnab ErrorLevel)) [Field ''k'' ''v'']) WarnLevel
   \<and> Core_Enabled (Core_With (LevelFilterCore (IoCore (LevelEnab InfoLevel) enc0 ws0)
           (LevelEnab ErrorLevel)) [Field ''k'' ''v'']) ErrorLevel"
proof -
  let ?cr = "IoCore (LevelEnab InfoLevel) enc0 ws0"
  let ?lv = "LevelEnab ErrorLevel"
  have "increase_check ?cr ?lv maxLevel = None"
    by (auto simp: increase_check_None LevelEnab_def Level_Enabled_def level_defs)
  then have ok: "NewIncreaseLevelCore ?cr ?lv = Inr (LevelFilterCore ?cr ?lv)"
    by (simp add: NewIncreaseLevelCore_def)
  have en: "\<not> Enabled ?lv WarnLevel \<and> Enabled ?lv ErrorLevel"
    by (simp add: LevelEnab_def Level_Enabled_def level_defs)
  have w: "Core_With ?cr [Field ''k'' ''v''] = IoCore (LevelEnab InfoLevel) (enc0\<lparr>enc_ctx := [Field ''k'' ''v'']\<rparr>) ws0"
    by (simp add: enc0_def)
  from levelFilterCore_With_spec[OF ok, of "[Field ''k'' ''v'']"] ok en w show ?thesis
    by simp
qed

section \<open>Writing: the tee, the hooks and the leaf core\<close>

lemma multierr_Append_None_iff [simp]:
  "multierr_Append a b = None \<longleftrightarrow> a = None \<and> b = None"
  by (cases a; cases b) auto

lemma multierr_Append_None_right [simp]: "multierr_Append a None = a"
  by (cases a) auto

lemma foldl_multierr_Append_None_iff:
  "foldl multierr_Append a es = None \<longleftrightarrow> a = None \<and> (\<forall>e \<in> set es. e = None)"
  by (induction es arbitrary: a) auto

lemma Cores_Write_snd:
  "snd (Cores_Write cs ent flds err tr) = foldl (\<lambda>t c. snd (Core_Write c ent flds t)) tr cs"
  by (induction cs arbitrary: err tr) (auto split: prod.splits)

lemma Cores_Write_append:
  "Cores_Write (cs @ ds) ent flds err tr =
     Cores_Write ds ent flds (fst (Cores_Write cs ent flds err tr)) (snd (Cores_Write cs ent flds err tr))"
  by (induction cs arbitrary: err tr) (auto split: prod.splits)

lemma Cores_Write_fst:
  "fst (Cores_Write cs ent flds err tr) =
     foldl multierr_Append err
       (map (\<lambda>i. fst (Core_Write (cs ! i) ent flds
                    (foldl (\<lambda>t c. snd (Core_Write c ent flds t)) tr (take i cs))))
          [0..<length cs])"
proof (induction cs rule: rev_induct)
  case Nil
  show ?case by simp
next
  case (snoc c cs)
  let ?step = "\<lambda>t c. snd (Core_Write c ent flds t)"
  let ?g = "\<lambda>i. fst (Core_Write (cs ! i) ent flds (foldl ?step tr (take i cs)))"
  let ?g' = "\<lambda>i. fst (Core_Write ((cs @ [c]) ! i) ent flds (foldl ?step tr (take i (cs @ [c]))))"
  have m: "map ?g' [0..<length cs] = map ?g [0..<length cs]"
    by (rule map_cong) (auto simp: nth_append)
  have l: "?g' (length cs) = fst (Core_Write c ent flds (foldl ?step tr cs))"
    by simp
  have "fst (Cores_Write (cs @ [c]) ent flds err tr)
      = multierr_Append (fst (Cores_Write cs ent flds err tr))
          (fst (Core_Write c ent flds (foldl ?step tr cs)))"
    by (simp add: Cores_Write_append Cores_Write_snd split: prod.splits)
  also have "\<dots> = multierr_Append (foldl multierr_Append err (map ?g [0..<length cs]))
          (fst (Core_Write c ent flds (foldl ?step tr cs)))"
    by (simp only: snoc.IH)
  also have "\<dots> = foldl multierr_Append err (map ?g [0..<length cs] @ [?g' (length cs)])"
    by (simp only: l foldl_append foldl_Cons foldl_Nil)
  also have "map ?g [0..<length cs] @ [?g' (length cs)] = map ?g' [0..<length (cs @ [c])]"
    by (simp only: m[symmetric] length_append_singleton upt_Suc_append[OF le0] map_append list.map)
  finally show ?case .
qed

lemma Cores_Sync_snd:
  "snd (Cores_Sync cs err tr) = foldl (\<lambda>t c. snd (Core_Sync c t)) tr cs"
  by (induction cs arbitrary: err tr) (auto split: prod.splits)

lemma Cores_Sync_append:
  "Cores_Sync (cs @ ds) err tr =
     Cores_Sync ds (fst (Cores_Sync cs err tr)) (snd (Cores_Sync cs err tr))"
  by (induction cs arbitrary: err tr) (auto split: prod.splits)

lemma Cores_Sync_fst:
  "fst (Cores_Sync cs err tr) =
     foldl multierr_Append err
       (map (\<lambda>i. fst (Core_Sync (cs ! i) (foldl (\<lambda>t c. snd (Core_Sync c t)) tr (take i cs))))
          [0..<length cs])"
proof (induction cs rule: rev_induct)
  case Nil
  show ?case by simp
next
  case (snoc c cs)
  let ?step = "\<lambda>t c. snd (Core_Sync c t)"
  let ?g = "\<lambda>i. fst (Core_Sync (cs ! i) (foldl ?step tr (take i cs)))"
  let ?g' = "\<lambda>i. fst (Core_Sync ((cs @ [c]) ! i) (foldl ?step tr (take i (cs @ [c]))))"
  have m: "map ?g' [0..<length cs] = map ?g [0..<length cs]"
    by (rule map_cong) (auto simp: nth_append)
  have l: "?g' (length cs) = fst (Core_Sync c (foldl ?step tr cs))"
    by simp
  have "fst (Cores_Sync (cs @ [c]) err tr)
      = multierr_Append (fst (Cores_Sync cs err tr)) (fst (Core_Sync c (foldl ?step tr cs)))"
    by (simp add: Cores_Sync_append Cores_Sync_snd split: prod.splits)
  also have "\<dots> = multierr_Append (foldl multierr_Append err (map ?g [0..<length cs]))
          (fst (Core_Sync c (foldl ?step tr cs)))"
    by (simp only: snoc.IH)
  also have "\<dots> = foldl multierr_Append err (map ?g [0..<length cs] @ [?g' (length cs)])"
    by (simp only: l foldl_append foldl_Cons foldl_Nil)
  also have "map ?g [0..<length cs] @ [?g' (length cs)] = map ?g' [0..<length (cs @ [c])]"
    by (simp only: m[symmetric] length_append_singleton upt_Suc_append[OF le0] map_append list.map)
  finally show ?case .
qed

text \<open>
  Claim C4. \<^verbatim>\<open>multiCore.Write\<close> runs the \<^verbatim>\<open>Write\<close> of every child, each on the trace
  the one before it left, whatever the children before it returned; it returns the errors of
  all children combined with \<^verbatim>\<open>multierr.Append\<close>, which is \<^verbatim>\<open>nil\<close> exactly when every
  child returned \<^verbatim>\<open>nil\<close>. \<^verbatim>\<open>multiCore.Sync\<close> does the same with the children's
  \<^verbatim>\<open>Sync\<close>.
\<close>

theorem multiCore_Write_Sync_spec:
  "snd (Core_Write (MultiCore mc) ent flds tr) = foldl (\<lambda>t c. snd (Core_Write c ent flds t)) tr mc
   \<and> fst (Core_Write (MultiCore mc) ent flds tr) =
       foldl multierr_Append None
         (map (\<lambda>i. fst (Core_Write (mc ! i) ent flds
                      (foldl (\<lambda>t c. snd (Core_Write c ent flds t)) tr (take i mc))))
            [0..<length mc])
   \<and> (fst (Core_Write (MultiCore mc) ent flds tr) = None \<longleftrightarrow>
        (\<forall>i<length mc. fst (Core_Write (mc ! i) ent flds
                      (foldl (\<lambda>t c. snd (Core_Write c ent flds t)) tr (take i mc))) = None))
   \<and> snd (Core_Sync (MultiCore mc) tr) = foldl (\<lambda>t c. snd (Core_Sync c t)) tr mc
   \<and> fst (Core_Sync (MultiCore mc) tr) =
       foldl multierr_Append None
         (map (\<lambda>i. fst (Core_Sync (mc ! i) (foldl (\<lambda>t c. snd (Core_Sync c t)) tr (take i mc))))
            [0..<length mc])
   \<and> (fst (Core_Sync (MultiCore mc) tr) = None \<longleftrightarrow>
        (\<forall>i<length mc. fst (Core_Sync (mc ! i) (foldl (\<lambda>t c. snd (Core_Sync c t)) tr (take i mc))) = None))"
proof -
  have w1: "snd (Core_Write (MultiCore mc) ent flds tr) = foldl (\<lambda>t c. snd (Core_Write c ent flds t)) tr mc"
    by (simp add: Cores_Write_snd)
  have w2: "fst (Core_Write (MultiCore mc) ent flds tr) =
       foldl multierr_Append None
         (map (\<lambda>i. fst (Core_Write (mc ! i) ent flds
                      (foldl (\<lambda>t c. snd (Core_Write c ent flds t)) tr (take i mc))))
            [0..<length mc])"
    by (simp add: Cores_Write_fst)
  have w3: "fst (Core_Write (MultiCore mc) ent flds tr) = None \<longleftrightarrow>
        (\<forall>i<length mc. fst (Core_Write (mc ! i) ent flds
                      (foldl (\<lambda>t c. snd (Core_Write c ent flds t)) tr (take i mc))) = None)"
    unfolding w2 foldl_multierr_Append_None_iff by auto
  have s1: "snd (Core_Sync (MultiCore mc) tr) = foldl (\<lambda>t c. snd (Core_Sync c t)) tr mc"
    by (simp add: Cores_Sync_snd)
  have s2: "fst (Core_Sync (MultiCore mc) tr) =
       foldl multierr_Append None
         (map (\<lambda>i. fst (Core_Sync (mc ! i) (foldl (\<lambda>t c. snd (Core_Sync c t)) tr (take i mc))))
            [0..<length mc])"
    by (simp add: Cores_Sync_fst)
  have s3: "fst (Core_Sync (MultiCore mc) tr) = None \<longleftrightarrow>
        (\<forall>i<length mc. fst (Core_Sync (mc ! i) (foldl (\<lambda>t c. snd (Core_Sync c t)) tr (take i mc))) = None)"
    unfolding s2 foldl_multierr_Append_None_iff by auto
  from w1 w2 w3 s1 s2 s3 show ?thesis by blast
qed


theorem multiCore_Write_Sync_spec_witness:
  "snd (Core_Write (MultiCore [IoCore (LevelEnab DebugLevel) enc0 ws_bad, IoCore (LevelEnab DebugLevel) enc0 ws0])
          ent_info [] [])
     = [EvEncode 0 [] ent_info [], EvSinkWrite 1 (Encoded ''hello''), EvBufferFree,
        EvEncode 0 [] ent_info [], EvSinkWrite 0 (Encoded ''hello''), EvBufferFree]
   \<and> fst (Core_Write (MultiCore [IoCore (LevelEnab DebugLevel) enc0 ws_bad, IoCore (LevelEnab DebugLevel) enc0 ws0])
          ent_info [] []) \<noteq> None
   \<and> fst (Core_Write (MultiCore [IoCore (LevelEnab DebugLevel) enc0 ws0, IoCore (LevelEnab DebugLevel) enc0 ws0])
          ent_info [] []) = None"
proof -
  let ?A = "IoCore (LevelEnab DebugLevel) enc0 ws_bad"
  let ?B = "IoCore (LevelEnab DebugLevel) enc0 ws0"
  note spec1 = multiCore_Write_Sync_spec[of "[?A, ?B]" ent_info "[]" "[]"]
  note spec2 = multiCore_Write_Sync_spec[of "[?B, ?B]" ent_info "[]" "[]"]
  have lv: "\<not> Level ent_info > ErrorLevel"
    by (simp add: ent_info_def level_defs)
  have t: "snd (Core_Write (MultiCore [?A, ?B]) ent_info [] [])
     = [EvEncode 0 [] ent_info [], EvSinkWrite 1 (Encoded ''hello''), EvBufferFree,
        EvEncode 0 [] ent_info [], EvSinkWrite 0 (Encoded ''hello''), EvBufferFree]"
    using lv by (simp add: spec1[THEN conjunct1] enc0_def ws0_def ws_bad_def)
       (simp add: ent_info_def)
  have "fst (Core_Write ([?A, ?B] ! 0) ent_info []
           (foldl (\<lambda>t c. snd (Core_Write c ent_info [] t)) [] (take 0 [?A, ?B]))) \<noteq> None"
    by (simp add: enc0_def ws_bad_def)
  then have "\<not> (\<forall>i<length [?A, ?B]. fst (Core_Write ([?A, ?B] ! i) ent_info []
           (foldl (\<lambda>t c. snd (Core_Write c ent_info [] t)) [] (take i [?A, ?B]))) = None)"
    by (intro notI) (drule spec[of _ 0], simp)
  with spec1[THEN conjunct2, THEN conjunct2, THEN conjunct1]
  have e1: "fst (Core_Write (MultiCore [?A, ?B]) ent_info [] []) \<noteq> None"
    by blast
  have "\<forall>i<length [?B, ?B]. fst (Core_Write ([?B, ?B] ! i) ent_info []
           (foldl (\<lambda>t c. snd (Core_Write c ent_info [] t)) [] (take i [?B, ?B]))) = None"
    using lv by (auto simp: less_Suc_eq enc0_def ws0_def)
  with spec2[THEN conjunct2, THEN conjunct2, THEN conjunct1]
  have e2: "fst (Core_Write (MultiCore [?B, ?B]) ent_info [] []) = None"
    by blast
  from t e1 e2 show ?thesis by blast
qed

lemma hooked_Write_snd:
  "snd (hooked_Write fs ent err tr) = tr @ map (\<lambda>f. EvHook (hook_id f) ent) fs"
  by (induction fs arbitrary: err tr) auto

lemma hooked_Write_append:
  "hooked_Write (fs @ gs) ent err tr =
     hooked_Write gs ent (fst (hooked_Write fs ent err tr)) (snd (hooked_Write fs ent err tr))"
  by (induction fs arbitrary: err tr) auto

lemma hooked_Write_fst:
  "fst (hooked_Write fs ent err tr) =
     foldl multierr_Append err
       (map (\<lambda>i. hook_call (fs ! i) (tr @ map (\<lambda>f. EvHook (hook_id f) ent) (take i fs)) ent)
          [0..<length fs])"
proof (induction fs rule: rev_induct)
  case Nil
  show ?case by simp
next
  case (snoc f fs)
  let ?ev = "\<lambda>f. EvHook (hook_id f) ent"
  let ?g = "\<lambda>i. hook_call (fs ! i) (tr @ map ?ev (take i fs)) ent"
  let ?g' = "\<lambda>i. hook_call ((fs @ [f]) ! i) (tr @ map ?ev (take i (fs @ [f]))) ent"
  have m: "map ?g' [0..<length fs] = map ?g [0..<length fs]"
    by (rule map_cong) (auto simp: nth_append)
  have l: "?g' (length fs) = hook_call f (tr @ map ?ev fs) ent"
    by simp
  have "fst (hooked_Write (fs @ [f]) ent err tr)
      = multierr_Append (fst (hooked_Write fs ent err tr)) (hook_call f (tr @ map ?ev fs) ent)"
    by (simp add: hooked_Write_append hooked_Write_snd)
  also have "\<dots> = multierr_Append (foldl multierr_Append err (map ?g [0..<length fs]))
          (hook_call f (tr @ map ?ev fs) ent)"
    by (simp only: snoc.IH)
  also have "\<dots> = foldl multierr_Append err (map ?g [0..<length fs] @ [?g' (length fs)])"
    by (simp only: l foldl_append foldl_Cons foldl_Nil)
  also have "map ?g [0..<length fs] @ [?g' (length fs)] = map ?g' [0..<length (fs @ [f])]"
    by (simp only: m[symmetric] length_append_singleton upt_Suc_append[OF le0] map_append list.map)
  finally show ?case .
qed

text \<open>
  Claim C6. \<^verbatim>\<open>Check\<close> of a core wrapped by \<^verbatim>\<open>RegisterHooks\<close> asks the wrapped core
  first; when that returns an entry, the wrapper is appended to the cores of that entry,
  and otherwise the incoming handle is returned as it is. Its \<^verbatim>\<open>Write\<close> calls every
  callback in the order of registration with the entry, combines all their errors, and
  does not depend on the fields.
\<close>

theorem hooked_Check_Write_spec:
  "Core_Check (RegisterHooks c funcs) ent ce =
     (case Core_Check c ent ce of
        None \<Rightarrow> ce
      | Some d \<Rightarrow> Some (d\<lparr>cores := cores d @ [RegisterHooks c funcs]\<rparr>))
   \<and> snd (Core_Write (RegisterHooks c funcs) ent flds tr) = tr @ map (\<lambda>f. EvHook (hook_id f) ent) funcs
   \<and> fst (Core_Write (RegisterHooks c funcs) ent flds tr) =
       foldl multierr_Append None
         (map (\<lambda>i. hook_call (funcs ! i) (tr @ map (\<lambda>f. EvHook (hook_id f) ent) (take i funcs)) ent)
            [0..<length funcs])
   \<and> Core_Write (RegisterHooks c funcs) ent flds tr = Core_Write (RegisterHooks c funcs) ent [] tr"
  by (simp add: RegisterHooks_def AddCore_def hooked_Write_snd hooked_Write_fst split: option.splits)

theorem hooked_Check_Write_spec_witness:
  "Core_Check (RegisterHooks (IoCore (LevelEnab DebugLevel) enc0 ws0) [hook_ok, hook_err]) ent_info None
     = Some \<lparr>entry = ent_info, ErrorOutput = None, dirty = False, after = None,
            cores = [IoCore (LevelEnab DebugLevel) enc0 ws0,
                     RegisterHooks (IoCore (LevelEnab DebugLevel) enc0 ws0) [hook_ok, hook_err]]\<rparr>
   \<and> Core_Check (RegisterHooks NopCore [hook_ok, hook_err]) ent_info None = None
   \<and> Core_Write (RegisterHooks NopCore [hook_ok, hook_err]) ent_info [Field ''k'' ''v''] []
     = (Some (ErrOther ''E''), [EvHook 0 ent_info, EvHook 1 ent_info])"
proof -
  let ?io = "IoCore (LevelEnab DebugLevel) enc0 ws0"
  let ?hs = "[hook_ok, hook_err]"
  have en: "Enabled (LevelEnab DebugLevel) (Level ent_info)"
    by (simp add: LevelEnab_def Level_Enabled_def ent_info_def level_defs)
  then have c1: "Core_Check ?io ent_info None
      = Some \<lparr>entry = ent_info, ErrorOutput = None, dirty = False, after = None, cores = [?io]\<rparr>"
    by (simp add: AddCore_def getCheckedEntry_def reset_def cePool_new_def)
  have a: "Core_Check (RegisterHooks ?io ?hs) ent_info None
     = Some \<lparr>entry = ent_info, ErrorOutput = None, dirty = False, after = None,
            cores = [?io, RegisterHooks ?io ?hs]\<rparr>"
    using hooked_Check_Write_spec[of ?io ?hs ent_info None "[]" "[]", THEN conjunct1] c1
    by simp
  have b: "Core_Check (RegisterHooks NopCore ?hs) ent_info None = None"
    using hooked_Check_Write_spec[of NopCore ?hs ent_info None "[]" "[]", THEN conjunct1]
    by simp
  note w = hooked_Check_Write_spec[of NopCore ?hs ent_info None "[Field ''k'' ''v'']" "[]"]
  have "snd (Core_Write (RegisterHooks NopCore ?hs) ent_info [Field ''k'' ''v''] [])
      = [EvHook 0 ent_info, EvHook 1 ent_info]"
    using w[THEN conjunct2, THEN conjunct1] by (simp add: hook_ok_def hook_err_def)
  moreover have "fst (Core_Write (RegisterHooks NopCore ?hs) ent_info [Field ''k'' ''v''] [])
      = Some (ErrOther ''E'')"
    using w[THEN conjunct2, THEN conjunct2, THEN conjunct1]
    by (simp add: hook_ok_def hook_err_def upt_rec[of 0] upt_rec[of 1])
  ultimately have c: "Core_Write (RegisterHooks NopCore ?hs) ent_info [Field ''k'' ''v''] []
     = (Some (ErrOther ''E''), [EvHook 0 ent_info, EvHook 1 ent_info])"
    by (simp add: prod_eq_iff)
  from a b c show ?thesis by blast
qed

text \<open>
  Claim C5, amended. \<^verbatim>\<open>ioCore.Write\<close> encodes the entry and the fields; an encoding
  error is returned before anything reaches the sink. Otherwise the bytes are written to the
  sink and the buffer is freed; the error of the sink is returned, and \<^verbatim>\<open>Sync\<close> is called
  as well exactly when the sink accepted the bytes and the level of the entry is above
  \<^verbatim>\<open>ErrorLevel\<close>. The result of \<^verbatim>\<open>Sync\<close> is ignored.
\<close>

theorem ioCore_Write_spec:
  "(\<forall>err. EncodeEntry enc tr (enc_ctx enc) ent flds = Inl err \<longrightarrow>
       Core_Write (IoCore enab enc out) ent flds tr
         = (Some err, tr @ [EvEncode (enc_id enc) (enc_ctx enc) ent flds]))
   \<and> (\<forall>buf. EncodeEntry enc tr (enc_ctx enc) ent flds = Inr buf \<longrightarrow>
       Core_Write (IoCore enab enc out) ent flds tr
         = (ws_Write out (tr @ [EvEncode (enc_id enc) (enc_ctx enc) ent flds]) (Encoded buf),
            tr @ [EvEncode (enc_id enc) (enc_ctx enc) ent flds,
                  EvSinkWrite (ws_id out) (Encoded buf), EvBufferFree]
               @ (if ws_Write out (tr @ [EvEncode (enc_id enc) (enc_ctx enc) ent flds]) (Encoded buf) = None
                     \<and> Level ent > ErrorLevel
                  then [EvSinkSync (ws_id out)] else [])))"
  by (auto simp: Let_def split: option.splits)

theorem ioCore_Write_spec_witness:
  "Core_Write (IoCore (LevelEnab DebugLevel) enc_bad ws0) ent0 [] []
     = (Some (ErrOther ''encode''), [EvEncode 1 [] ent0 []])
   \<and> Core_Write (IoCore (LevelEnab DebugLevel) enc0 ws0) ent0 [] []
     = (None, [EvEncode 0 [] ent0 [], EvSinkWrite 0 (Encoded ''boom''), EvBufferFree, EvSinkSync 0])
   \<and> Core_Write (IoCore (LevelEnab DebugLevel) enc0 ws0) ent_info [] []
     = (None, [EvEncode 0 [] ent_info [], EvSinkWrite 0 (Encoded ''hello''), EvBufferFree])
   \<and> Core_Write (IoCore (LevelEnab DebugLevel) enc0 ws_bad) ent0 [] []
     = (Some (ErrOther ''disk full''),
        [EvEncode 0 [] ent0 [], EvSinkWrite 1 (Encoded ''boom''), EvBufferFree])"
proof -
  have e1: "EncodeEntry enc_bad [] (enc_ctx enc_bad) ent0 [] = Inl (ErrOther ''encode'')"
    by (simp add: enc_bad_def)
  have e2: "EncodeEntry enc0 [] (enc_ctx enc0) ent0 [] = Inr ''boom''"
    by (simp add: enc0_def ent0_def)
  have e3: "EncodeEntry enc0 [] (enc_ctx enc0) ent_info [] = Inr ''hello''"
    by (simp add: enc0_def ent_info_def)
  have l0: "Level ent0 > ErrorLevel" by (simp add: ent0_def level_defs)
  have l1: "\<not> Level ent_info > ErrorLevel" by (simp add: ent_info_def level_defs)
  have a: "Core_Write (IoCore (LevelEnab DebugLevel) enc_bad ws0) ent0 [] []
     = (Some (ErrOther ''encode''), [EvEncode 1 [] ent0 []])"
    using ioCore_Write_spec[of enc_bad "[]" ent0 "[]" "LevelEnab DebugLevel" ws0, THEN conjunct1] e1
    by (simp add: enc_bad_def)
  have b: "Core_Write (IoCore (LevelEnab DebugLevel) enc0 ws0) ent0 [] []
     = (None, [EvEncode 0 [] ent0 [], EvSinkWrite 0 (Encoded ''boom''), EvBufferFree, EvSinkSync 0])"
    using ioCore_Write_spec[of enc0 "[]" ent0 "[]" "LevelEnab DebugLevel" ws0, THEN conjunct2] e2 l0
    by (simp add: enc0_def ws0_def)
  have c: "Core_Write (IoCore (LevelEnab DebugLevel) enc0 ws0) ent_info [] []
     = (None, [EvEncode 0 [] ent_info [], EvSinkWrite 0 (Encoded ''hello''), EvBufferFree])"
    using ioCore_Write_spec[of enc0 "[]" ent_info "[]" "LevelEnab DebugLevel" ws0, THEN conjunct2] e3 l1
    by (simp add: enc0_def ws0_def)
  have d: "Core_Write (IoCore (LevelEnab DebugLevel) enc0 ws_bad) ent0 [] []
     = (Some (ErrOther ''disk full''),
        [EvEncode 0 [] ent0 [], EvSinkWrite 1 (Encoded ''boom''), EvBufferFree])"
    using ioCore_Write_spec[of enc0 "[]" ent0 "[]" "LevelEnab DebugLevel" ws_bad, THEN conjunct2] e2 l0
    by (simp add: enc0_def ws_bad_def)
  from a b c d show ?thesis by blast
qed

text \<open>
  Claim C5 as stated asks for \<^verbatim>\<open>Sync\<close> whenever the level is above \<^verbatim>\<open>ErrorLevel\<close>.
  A fatal entry whose encoding succeeds and whose sink rejects the bytes is not synced.
\<close>

theorem ioCore_Write_no_Sync_on_write_error:
  "Level ent0 > ErrorLevel
   \<and> EncodeEntry enc0 [] (enc_ctx enc0) ent0 [] = Inr ''boom''
   \<and> EvSinkSync (ws_id ws_bad)
       \<notin> set (snd (Core_Write (IoCore (LevelEnab DebugLevel) enc0 ws_bad) ent0 [] []))"
  by (simp add: enc0_def ws_bad_def ent0_def level_defs)

section \<open>Writing a checked entry\<close>

lemma OnWrite_trace:
  "\<exists>evs. snd (OnWrite h c flds tr) = tr @ evs \<and> (\<forall>ev \<in> set evs. \<not> is_core_write ev)"
proof (cases h)
  case (Action a)
  then show ?thesis by (cases a) auto
next
  case (CustomHook i oc)
  then show ?thesis by auto
qed

lemma AddCore_not_dirty:
  "(\<forall>c. ce = Some c \<longrightarrow> \<not> dirty c) \<Longrightarrow> AddCore ce ent cr = Some c' \<Longrightarrow> \<not> dirty c'"
  by (auto simp: AddCore_def getCheckedEntry_def reset_def Let_def split: option.splits)

lemma After_not_dirty:
  "(\<forall>c. ce = Some c \<longrightarrow> \<not> dirty c) \<Longrightarrow> After ce ent h = Some c' \<Longrightarrow> \<not> dirty c'"
  by (auto simp: After_def getCheckedEntry_def reset_def Let_def split: option.splits)

text \<open>
  \<^verbatim>\<open>CheckedEntry.Write\<close> on the contents of an instance: when it is not dirty, the
  \<^verbatim>\<open>Write\<close> of each of its cores runs once, in order, what follows contains no
  \<^verbatim>\<open>Write\<close> of a core, and the instance is left dirty; when it is dirty, only the
  diagnostic line is printed.
\<close>

lemma CheckedEntry_Write_contents:
  "\<not> dirty ce \<Longrightarrow>
     (\<exists>oc rest.
        CheckedEntry_Write (Some ce) flds tr =
          (Some (ce\<lparr>dirty := True\<rparr>), oc,
           foldl (\<lambda>t c. snd (Core_Write c (entry ce) flds t)) tr (cores ce) @ rest)
        \<and> (\<forall>ev \<in> set rest. \<not> is_core_write ev))
     \<and> (\<forall>flds2 tr2.
          CheckedEntry_Write (Some (ce\<lparr>dirty := True\<rparr>)) flds2 tr2 =
            (Some (ce\<lparr>dirty := True\<rparr>), Returned,
             tr2 @ (case ErrorOutput ce of
                      None \<Rightarrow> []
                    | Some w \<Rightarrow>
                        [EvSinkWrite (ws_id w) (UnsafeReuseLine (Time (entry ce)) (entry ce)),
                         EvSinkSync (ws_id w)])))"
proof (intro conjI)
  assume nd: "\<not> dirty ce"
  let ?c1 = "ce\<lparr>dirty := True\<rparr>"
  let ?t1 = "foldl (\<lambda>t c. snd (Core_Write c (entry ce) flds t)) tr (cores ce)"
  obtain err tr1 where cw: "Cores_Write (cores ce) (entry ce) flds None tr = (err, tr1)"
    by (cases "Cores_Write (cores ce) (entry ce) flds None tr") auto
  have tr1: "tr1 = ?t1"
    using Cores_Write_snd[of "cores ce" "entry ce" flds None tr] cw by simp
  define tr2 where "tr2 =
    (case (err, ErrorOutput ?c1) of
       (Some e, Some w) \<Rightarrow>
         tr1 @ [EvSinkWrite (ws_id w) (WriteErrorLine (Time (entry ?c1)) e), EvSinkSync (ws_id w)]
     | _ \<Rightarrow> tr1)"
  have "\<exists>e2. tr2 = tr1 @ e2 \<and> (\<forall>ev \<in> set e2. \<not> is_core_write ev)"
    by (auto simp: tr2_def split: option.splits)
  then obtain e2 where e2: "tr2 = tr1 @ e2" "\<forall>ev \<in> set e2. \<not> is_core_write ev"
    by blast
  have res: "CheckedEntry_Write (Some ce) flds tr =
      (case after ?c1 of
         None \<Rightarrow> (Some ?c1, Returned, tr2 @ [EvPoolPut])
       | Some hook \<Rightarrow>
           (case OnWrite hook ?c1 flds tr2 of
              (Returned, tr3) \<Rightarrow> (Some ?c1, Returned, tr3 @ [EvPoolPut])
            | (oc, tr3) \<Rightarrow> (Some ?c1, oc, tr3)))"
    unfolding tr2_def using nd
    by (cases err; cases "ErrorOutput ce"; cases "after ce")
       (simp_all add: CheckedEntry_Write_def cw Let_def)
  show "\<exists>oc rest. CheckedEntry_Write (Some ce) flds tr = (Some ?c1, oc, ?t1 @ rest)
          \<and> (\<forall>ev \<in> set rest. \<not> is_core_write ev)"
  proof (cases "after ce")
    case None
    with res have "CheckedEntry_Write (Some ce) flds tr = (Some ?c1, Returned, ?t1 @ (e2 @ [EvPoolPut]))"
      by (simp add: e2 tr1)
    moreover have "\<forall>ev \<in> set (e2 @ [EvPoolPut]). \<not> is_core_write ev"
      using e2(2) by auto
    ultimately show ?thesis by blast
  next
    case (Some hook)
    obtain oc tr3 where ow: "OnWrite hook ?c1 flds tr2 = (oc, tr3)"
      by (cases "OnWrite hook ?c1 flds tr2") auto
    from OnWrite_trace[of hook ?c1 flds tr2] ow
    obtain e3 where e3: "tr3 = tr2 @ e3" "\<forall>ev \<in> set e3. \<not> is_core_write ev"
      by auto
    show ?thesis
    proof (cases "oc = Returned")
      case True
      with res Some ow
      have "CheckedEntry_Write (Some ce) flds tr = (Some ?c1, Returned, ?t1 @ (e2 @ e3 @ [EvPoolPut]))"
        by (simp add: e2 e3 tr1)
      moreover have "\<forall>ev \<in> set (e2 @ e3 @ [EvPoolPut]). \<not> is_core_write ev"
        using e2(2) e3(2) by auto
      ultimately show ?thesis by blast
    next
      case False
      with res Some ow
      have "CheckedEntry_Write (Some ce) flds tr = (Some ?c1, oc, ?t1 @ (e2 @ e3))"
        by (cases oc) (simp_all add: e2 e3 tr1)
      moreover have "\<forall>ev \<in> set (e2 @ e3). \<not> is_core_write ev"
        using e2(2) e3(2) by auto
      ultimately show ?thesis by blast
    qed
  qed
next
  show "\<forall>flds2 tr2.
          CheckedEntry_Write (Some (ce\<lparr>dirty := True\<rparr>)) flds2 tr2 =
            (Some (ce\<lparr>dirty := True\<rparr>), Returned,
             tr2 @ (case ErrorOutput ce of
                      None \<Rightarrow> []
                    | Some w \<Rightarrow>
                        [EvSinkWrite (ws_id w) (UnsafeReuseLine (Time (entry ce)) (entry ce)),
                         EvSinkSync (ws_id w)]))"
    by (simp add: CheckedEntry_Write_def split: option.splits)
qed

text \<open>
  The pool and the handles. \<^verbatim>\<open>reset\<close> makes every instance the same, so what a handle
  obtained from the pool points to does not depend on which instance the pool handed out:
  the contents are those that \<open>AddCore\<close> and \<open>After\<close> compute, and no other instance
  changes.
\<close>

lemma reset_value:
  "reset x = \<lparr>entry = Entry_zero, ErrorOutput = None, dirty = False, after = None, cores = []\<rparr>"
  by (cases x) (simp add: reset_def)

lemma Pool_Get_heap_other:
  "Pool_Get pick st = (b, st') \<Longrightarrow> b \<noteq> a \<Longrightarrow> st_heap st' a = st_heap st a"
  by (auto simp: Pool_Get_def Pool_New_def split: option.splits if_splits)

lemma getCheckedEntry_ptr_heap:
  "getCheckedEntry_ptr pick st = (b, st') \<Longrightarrow>
     st_heap st' b = reset cePool_new \<and> (\<forall>a. a \<noteq> b \<longrightarrow> st_heap st' a = st_heap st a)"
  by (auto simp: getCheckedEntry_ptr_def reset_value Pool_Get_heap_other split: prod.splits)

lemma AddCore_ptr_contents:
  "AddCore_ptr pick h ent cr st = (h', st') \<Longrightarrow>
     \<exists>b. h' = Some b \<and> Some (st_heap st' b) = AddCore (map_option (st_heap st) h) ent cr
       \<and> (h \<noteq> None \<longrightarrow> h = Some b)
       \<and> (\<forall>a. a \<noteq> b \<longrightarrow> st_heap st' a = st_heap st a)"
proof (cases h)
  case None
  obtain b st1 where g: "getCheckedEntry_ptr pick st = (b, st1)"
    by (cases "getCheckedEntry_ptr pick st") auto
  assume "AddCore_ptr pick h ent cr st = (h', st')"
  with None g getCheckedEntry_ptr_heap[OF g] show ?thesis
    by (auto simp: AddCore_ptr_def AddCore_def getCheckedEntry_def Let_def)
next
  case (Some b)
  assume "AddCore_ptr pick h ent cr st = (h', st')"
  with Some show ?thesis
    by (auto simp: AddCore_ptr_def AddCore_def Let_def)
qed

lemma After_ptr_contents:
  "After_ptr pick h ent hook st = (h', st') \<Longrightarrow>
     \<exists>b. h' = Some b \<and> Some (st_heap st' b) = After (map_option (st_heap st) h) ent hook
       \<and> (h \<noteq> None \<longrightarrow> h = Some b)
       \<and> (\<forall>a. a \<noteq> b \<longrightarrow> st_heap st' a = st_heap st a)"
proof (cases h)
  case None
  obtain b st1 where g: "getCheckedEntry_ptr pick st = (b, st1)"
    by (cases "getCheckedEntry_ptr pick st") auto
  assume "After_ptr pick h ent hook st = (h', st')"
  with None g getCheckedEntry_ptr_heap[OF g] show ?thesis
    by (auto simp: After_ptr_def After_def getCheckedEntry_def Let_def)
next
  case (Some b)
  assume "After_ptr pick h ent hook st = (h', st')"
  with Some show ?thesis
    by (auto simp: After_ptr_def After_def Let_def)
qed

lemma AddCore_ptr_dirty:
  assumes "AddCore_ptr pick h ent cr st = (Some b, st')"
  shows "(h = None \<longrightarrow> \<not> dirty (st_heap st' b))
       \<and> ((h = None \<longrightarrow> b \<noteq> a) \<longrightarrow> dirty (st_heap st' a) = dirty (st_heap st a))"
proof -
  from AddCore_ptr_contents[OF assms]
  have c: "Some (st_heap st' b) = AddCore (map_option (st_heap st) h) ent cr"
    and s: "h \<noteq> None \<longrightarrow> h = Some b"
    and o: "\<forall>a. a \<noteq> b \<longrightarrow> st_heap st' a = st_heap st a"
    by auto
  have 1: "h = None \<longrightarrow> \<not> dirty (st_heap st' b)"
    using c by (auto simp: AddCore_def getCheckedEntry_def reset_def Let_def)
  have 2: "(h = None \<longrightarrow> b \<noteq> a) \<longrightarrow> dirty (st_heap st' a) = dirty (st_heap st a)"
  proof (cases "a = b")
    case True
    show ?thesis
    proof
      assume "h = None \<longrightarrow> b \<noteq> a"
      with True s have "h = Some a" by (cases h) auto
      with c True show "dirty (st_heap st' a) = dirty (st_heap st a)"
        by (auto simp: AddCore_def Let_def)
    qed
  next
    case False
    with o show ?thesis by simp
  qed
  from 1 2 show ?thesis by blast
qed

lemma After_ptr_dirty:
  assumes "After_ptr pick h ent hook st = (Some b, st')"
  shows "(h = None \<longrightarrow> \<not> dirty (st_heap st' b))
       \<and> ((h = None \<longrightarrow> b \<noteq> a) \<longrightarrow> dirty (st_heap st' a) = dirty (st_heap st a))"
proof -
  from After_ptr_contents[OF assms]
  have c: "Some (st_heap st' b) = After (map_option (st_heap st) h) ent hook"
    and s: "h \<noteq> None \<longrightarrow> h = Some b"
    and o: "\<forall>a. a \<noteq> b \<longrightarrow> st_heap st' a = st_heap st a"
    by auto
  have 1: "h = None \<longrightarrow> \<not> dirty (st_heap st' b)"
    using c by (auto simp: After_def getCheckedEntry_def reset_def Let_def)
  have 2: "(h = None \<longrightarrow> b \<noteq> a) \<longrightarrow> dirty (st_heap st' a) = dirty (st_heap st a)"
  proof (cases "a = b")
    case True
    show ?thesis
    proof
      assume "h = None \<longrightarrow> b \<noteq> a"
      with True s have "h = Some a" by (cases h) auto
      with c True show "dirty (st_heap st' a) = dirty (st_heap st a)"
        by (auto simp: After_def Let_def)
    qed
  next
    case False
    with o show ?thesis by simp
  qed
  from 1 2 show ?thesis by blast
qed

text \<open>
  \<^verbatim>\<open>Write\<close> on a handle does to the instance what \<open>CheckedEntry_Write\<close> does to its
  contents, and touches no other instance.
\<close>

lemma Write_ptr_contents:
  "CheckedEntry_Write (Some (st_heap st a)) flds tr =
     (Some (st_heap (snd (snd (Write_ptr (Some a) flds tr st))) a),
      fst (Write_ptr (Some a) flds tr st),
      fst (snd (Write_ptr (Some a) flds tr st)))"
proof (cases "dirty (st_heap st a)")
  case True
  then show ?thesis
    by (cases "ErrorOutput (st_heap st a)") (simp_all add: CheckedEntry_Write_def Write_ptr_def)
next
  case False
  let ?c1 = "(st_heap st a)\<lparr>dirty := True\<rparr>"
  obtain err tr1 where cw: "Cores_Write (cores (st_heap st a)) (entry (st_heap st a)) flds None tr = (err, tr1)"
    by (cases "Cores_Write (cores (st_heap st a)) (entry (st_heap st a)) flds None tr") auto
  show ?thesis
  proof (cases "after (st_heap st a)")
    case None
    with False cw show ?thesis
      by (cases err; cases "ErrorOutput (st_heap st a)")
         (simp_all add: CheckedEntry_Write_def Write_ptr_def Let_def putCheckedEntry_ptr_def Pool_Put_def)
  next
    case (Some hook)
    with False cw show ?thesis
      by (cases err; cases "ErrorOutput (st_heap st a)")
         (auto simp: CheckedEntry_Write_def Write_ptr_def Let_def putCheckedEntry_ptr_def Pool_Put_def
               split: prod.splits outcome.splits)
  qed
qed


lemma Write_ptr_heap:
  "st_heap (snd (snd (Write_ptr (Some b) flds tr st))) =
     (if dirty (st_heap st b) then st_heap st
      else (st_heap st)(b := (st_heap st b)\<lparr>dirty := True\<rparr>))"
proof (cases "dirty (st_heap st b)")
  case True
  then show ?thesis
    by (cases "ErrorOutput (st_heap st b)") (simp_all add: Write_ptr_def)
next
  case False
  obtain err tr1 where cw: "Cores_Write (cores (st_heap st b)) (entry (st_heap st b)) flds None tr = (err, tr1)"
    by (cases "Cores_Write (cores (st_heap st b)) (entry (st_heap st b)) flds None tr") auto
  from False cw show ?thesis
    by (cases err; cases "ErrorOutput (st_heap st b)"; cases "after (st_heap st b)")
       (auto simp: Write_ptr_def Let_def putCheckedEntry_ptr_def Pool_Put_def
             split: prod.splits outcome.splits)
qed

text \<open>
  Claim C2, amended. An instance that \<^verbatim>\<open>AddCore\<close> or \<^verbatim>\<open>After\<close> took from the pool
  is not dirty. The first \<^verbatim>\<open>Write\<close> on an instance that is not dirty runs the
  \<^verbatim>\<open>Write\<close> of each of its cores once, in order, with the entry and the fields; what it
  does afterwards contains no \<^verbatim>\<open>Write\<close> of a core, and the instance is left dirty. The
  instance stays dirty under every \<^verbatim>\<open>AddCore\<close>, \<^verbatim>\<open>After\<close> and \<^verbatim>\<open>Write\<close>, whatever
  the pool does, except an \<^verbatim>\<open>AddCore\<close> or \<^verbatim>\<open>After\<close> on \<^verbatim>\<open>nil\<close> to which the pool
  hands out this very instance. A \<^verbatim>\<open>Write\<close> on a dirty instance calls no core and
  returns: it prints the diagnostic line to the error output and syncs it when there is
  one, and does nothing otherwise.
\<close>

theorem Write_ptr_twice:
  "(\<not> dirty (st_heap st a) \<longrightarrow>
      (\<exists>oc rest st1.
         Write_ptr (Some a) flds tr st =
           (oc,
            foldl (\<lambda>t c. snd (Core_Write c (entry (st_heap st a)) flds t)) tr (cores (st_heap st a)) @ rest,
            st1)
         \<and> (\<forall>ev \<in> set rest. \<not> is_core_write ev)
         \<and> st_heap st1 = (st_heap st)(a := (st_heap st a)\<lparr>dirty := True\<rparr>)))
   \<and> (dirty (st_heap st a) \<longrightarrow>
        Write_ptr (Some a) flds tr st =
          (Returned,
           tr @ (case ErrorOutput (st_heap st a) of
                   None \<Rightarrow> []
                 | Some w \<Rightarrow>
                     [EvSinkWrite (ws_id w)
                        (UnsafeReuseLine (Time (entry (st_heap st a))) (entry (st_heap st a))),
                      EvSinkSync (ws_id w)]),
           st))
   \<and> (\<forall>h b st'. AddCore_ptr pick h ent cr st = (Some b, st') \<longrightarrow>
         (h = None \<longrightarrow> \<not> dirty (st_heap st' b))
         \<and> ((h = None \<longrightarrow> b \<noteq> a) \<longrightarrow> dirty (st_heap st' a) = dirty (st_heap st a)))
   \<and> (\<forall>h b st'. After_ptr pick h ent hook st = (Some b, st') \<longrightarrow>
         (h = None \<longrightarrow> \<not> dirty (st_heap st' b))
         \<and> ((h = None \<longrightarrow> b \<noteq> a) \<longrightarrow> dirty (st_heap st' a) = dirty (st_heap st a)))
   \<and> (\<forall>b. b \<noteq> a \<longrightarrow> st_heap (snd (snd (Write_ptr (Some b) flds tr st))) a = st_heap st a)"
proof (intro conjI impI allI)
  assume nd: "\<not> dirty (st_heap st a)"
  let ?t1 = "foldl (\<lambda>t c. snd (Core_Write c (entry (st_heap st a)) flds t)) tr (cores (st_heap st a))"
  from CheckedEntry_Write_contents[OF nd, of flds tr, THEN conjunct1]
  obtain oc rest where v: "CheckedEntry_Write (Some (st_heap st a)) flds tr
        = (Some ((st_heap st a)\<lparr>dirty := True\<rparr>), oc, ?t1 @ rest)"
    and r: "\<forall>ev \<in> set rest. \<not> is_core_write ev"
    by blast
  from v Write_ptr_contents[of st a flds tr]
  have "fst (Write_ptr (Some a) flds tr st) = oc"
    and "fst (snd (Write_ptr (Some a) flds tr st)) = ?t1 @ rest"
    by simp_all
  then have "Write_ptr (Some a) flds tr st = (oc, ?t1 @ rest, snd (snd (Write_ptr (Some a) flds tr st)))"
    by (simp add: prod_eq_iff)
  moreover have "st_heap (snd (snd (Write_ptr (Some a) flds tr st)))
      = (st_heap st)(a := (st_heap st a)\<lparr>dirty := True\<rparr>)"
    using nd by (simp add: Write_ptr_heap)
  ultimately show "\<exists>oc rest st1.
         Write_ptr (Some a) flds tr st = (oc, ?t1 @ rest, st1)
         \<and> (\<forall>ev \<in> set rest. \<not> is_core_write ev)
         \<and> st_heap st1 = (st_heap st)(a := (st_heap st a)\<lparr>dirty := True\<rparr>)"
    using r by blast
next
  assume "dirty (st_heap st a)"
  then show "Write_ptr (Some a) flds tr st =
          (Returned,
           tr @ (case ErrorOutput (st_heap st a) of
                   None \<Rightarrow> []
                 | Some w \<Rightarrow>
                     [EvSinkWrite (ws_id w)
                        (UnsafeReuseLine (Time (entry (st_heap st a))) (entry (st_heap st a))),
                      EvSinkSync (ws_id w)]),
           st)"
    by (cases "ErrorOutput (st_heap st a)") (simp_all add: Write_ptr_def)
next
  fix h b st'
  assume x: "AddCore_ptr pick h ent cr st = (Some b, st')"
  { assume "h = None"
    with AddCore_ptr_dirty[OF x, of a] show "\<not> dirty (st_heap st' b)" by blast }
  { assume "h = None \<longrightarrow> b \<noteq> a"
    with AddCore_ptr_dirty[OF x, of a] show "dirty (st_heap st' a) = dirty (st_heap st a)" by blast }
next
  fix h b st'
  assume x: "After_ptr pick h ent hook st = (Some b, st')"
  { assume "h = None"
    with After_ptr_dirty[OF x, of a] show "\<not> dirty (st_heap st' b)" by blast }
  { assume "h = None \<longrightarrow> b \<noteq> a"
    with After_ptr_dirty[OF x, of a] show "dirty (st_heap st' a) = dirty (st_heap st a)" by blast }
next
  fix b
  assume "b \<noteq> a"
  then show "st_heap (snd (snd (Write_ptr (Some b) flds tr st))) a = st_heap st a"
    by (simp add: Write_ptr_heap)
qed

text \<open>
  The run on the pool that hands out the instance put back last, step by step.
\<close>

lemma store1_value:
  "AddCore_ptr pick_last None ent0 coreA store0
     = (Some 0,
        \<lparr>st_heap = (\<lambda>a. cePool_new)
           (0 := \<lparr>entry = ent0, ErrorOutput = None, dirty = False, after = None, cores = [coreA]\<rparr>),
         st_pool = [], st_fresh = Suc 0\<rparr>)
   \<and> store1
     = \<lparr>st_heap = (\<lambda>a. cePool_new)
           (0 := \<lparr>entry = ent0, ErrorOutput = Some ws_bad, dirty = False, after = None, cores = [coreA]\<rparr>),
        st_pool = [], st_fresh = Suc 0\<rparr>"
  by (simp add: store1_def AddCore_ptr_def getCheckedEntry_ptr_def Pool_Get_def Pool_New_def
        pick_last_def store0_def reset_value cePool_new_def)

lemma coreA_Write:
  "Core_Write coreA ent0 [] tr
     = (None, tr @ [EvEncode 0 [] ent0 [], EvSinkWrite 0 (Encoded ''boom''), EvBufferFree, EvSinkSync 0])"
  by (simp add: coreA_def enc0_def ws0_def ent0_def level_defs)

lemma coreB_Write:
  "Core_Write coreB ent0 [] tr
     = (None, tr @ [EvEncode 5 [] ent0 [], EvSinkWrite 0 (Encoded ''boom''), EvBufferFree, EvSinkSync 0])"
  by (simp add: coreB_def enc5_def ws0_def ent0_def level_defs)

lemma store2_value:
  "Write_ptr (Some 0) [] [] store1 = (Returned, trace2, store2)
   \<and> trace2 = [EvEncode 0 [] ent0 [], EvSinkWrite 0 (Encoded ''boom''), EvBufferFree, EvSinkSync 0,
               EvPoolPut]
   \<and> store2
     = \<lparr>st_heap = (\<lambda>a. cePool_new)
           (0 := \<lparr>entry = ent0, ErrorOutput = Some ws_bad, dirty = True, after = None, cores = [coreA]\<rparr>),
        st_pool = [0], st_fresh = Suc 0\<rparr>"
proof -
  have w: "Write_ptr (Some 0) [] [] store1
     = (Returned,
        [EvEncode 0 [] ent0 [], EvSinkWrite 0 (Encoded ''boom''), EvBufferFree, EvSinkSync 0, EvPoolPut],
        \<lparr>st_heap = (\<lambda>a. cePool_new)
           (0 := \<lparr>entry = ent0, ErrorOutput = Some ws_bad, dirty = True, after = None, cores = [coreA]\<rparr>),
         st_pool = [0], st_fresh = Suc 0\<rparr>)"
    by (simp add: store1_value Write_ptr_def coreA_Write putCheckedEntry_ptr_def Pool_Put_def)
  then show ?thesis by (simp add: trace2_def store2_def)
qed

lemma store3_value:
  "AddCore_ptr pick_last None ent0 coreB store2 = (Some 0, store3)
   \<and> store3
     = \<lparr>st_heap = (\<lambda>a. cePool_new)
           (0 := \<lparr>entry = ent0, ErrorOutput = None, dirty = False, after = None, cores = [coreB]\<rparr>),
        st_pool = [], st_fresh = Suc 0\<rparr>"
proof -
  have "AddCore_ptr pick_last None ent0 coreB store2
     = (Some 0,
        \<lparr>st_heap = (\<lambda>a. cePool_new)
           (0 := \<lparr>entry = ent0, ErrorOutput = None, dirty = False, after = None, cores = [coreB]\<rparr>),
         st_pool = [], st_fresh = Suc 0\<rparr>)"
    by (simp add: store2_value AddCore_ptr_def getCheckedEntry_ptr_def Pool_Get_def
          pick_last_def reset_value)
  then show ?thesis by (simp add: store3_def)
qed

theorem Write_ptr_twice_witness:
  "fst (AddCore_ptr pick_last None ent0 coreA store0) = Some 0
   \<and> \<not> dirty (st_heap store1 0)
   \<and> Write_ptr (Some 0) [] [] store1 = (Returned, trace2, store2)
   \<and> trace2 = [EvEncode 0 [] ent0 [], EvSinkWrite 0 (Encoded ''boom''), EvBufferFree, EvSinkSync 0,
               EvPoolPut]
   \<and> dirty (st_heap store2 0)
   \<and> Write_ptr (Some 0) [] trace2 store2
       = (Returned, trace2 @ [EvSinkWrite 1 (UnsafeReuseLine 0 ent0), EvSinkSync 1], store2)"
proof -
  have a: "fst (AddCore_ptr pick_last None ent0 coreA store0) = Some 0"
    by (simp add: store1_value)
  have nd: "\<not> dirty (st_heap store1 0)"
    by (simp add: store1_value)
  from Write_ptr_twice[of store1 0 "[]" "[]", THEN conjunct1] nd
  have "\<exists>oc rest st1. Write_ptr (Some 0) [] [] store1
          = (oc, foldl (\<lambda>t c. snd (Core_Write c (entry (st_heap store1 0)) [] t)) []
                   (cores (st_heap store1 0)) @ rest, st1)
          \<and> (\<forall>ev \<in> set rest. \<not> is_core_write ev)
          \<and> st_heap st1 = (st_heap store1)(0 := (st_heap store1 0)\<lparr>dirty := True\<rparr>)"
    by blast
  then have d: "dirty (st_heap store2 0)"
    by (auto simp: store2_def)
  have b: "Write_ptr (Some 0) [] [] store1 = (Returned, trace2, store2)"
    and c: "trace2 = [EvEncode 0 [] ent0 [], EvSinkWrite 0 (Encoded ''boom''), EvBufferFree,
                      EvSinkSync 0, EvPoolPut]"
    by (simp_all add: store2_value)
  from Write_ptr_twice[of store2 0 "[]" trace2, THEN conjunct2, THEN conjunct1] d
  have e: "Write_ptr (Some 0) [] trace2 store2
       = (Returned, trace2 @ [EvSinkWrite 1 (UnsafeReuseLine 0 ent0), EvSinkSync 1], store2)"
    by (simp add: store2_value ws_bad_def ent0_def Entry_zero_def)
  from a nd b c d e show ?thesis by blast
qed

text \<open>
  Claim C2 as stated fails when the pool hands the instance out again between the two
  calls. The entry for \<open>coreA\<close> is instance \<open>0\<close>, it gets an error output and is written;
  the entry obtained next, for \<open>coreB\<close>, is instance \<open>0\<close> again, reset. The second
  \<^verbatim>\<open>Write\<close> through the first handle runs the \<^verbatim>\<open>Write\<close> of \<open>coreB\<close> and prints no
  diagnostic line.
\<close>

theorem Write_ptr_reissued_instance:
  "fst (AddCore_ptr pick_last None ent0 coreA store0) = Some 0
   \<and> ErrorOutput (st_heap store1 0) = Some ws_bad
   \<and> Write_ptr (Some 0) [] [] store1 = (Returned, trace2, store2)
   \<and> AddCore_ptr pick_last None ent0 coreB store2 = (Some 0, store3)
   \<and> fst (snd (Write_ptr (Some 0) [] trace2 store3))
       = trace2 @ [EvEncode 5 [] ent0 [], EvSinkWrite 0 (Encoded ''boom''), EvBufferFree,
                   EvSinkSync 0, EvPoolPut]
   \<and> is_core_write (EvEncode 5 [] ent0 [])
   \<and> EvSinkWrite 1 (UnsafeReuseLine 0 ent0) \<notin> set (fst (snd (Write_ptr (Some 0) [] trace2 store3)))"
proof -
  have w: "fst (snd (Write_ptr (Some 0) [] trace2 store3))
       = trace2 @ [EvEncode 5 [] ent0 [], EvSinkWrite 0 (Encoded ''boom''), EvBufferFree,
                   EvSinkSync 0, EvPoolPut]"
    by (simp add: store3_value Write_ptr_def coreB_Write putCheckedEntry_ptr_def Pool_Put_def)
  have t: "trace2 = [EvEncode 0 [] ent0 [], EvSinkWrite 0 (Encoded ''boom''), EvBufferFree,
                     EvSinkSync 0, EvPoolPut]"
    by (simp add: store2_value)
  have n: "EvSinkWrite 1 (UnsafeReuseLine 0 ent0) \<notin> set (fst (snd (Write_ptr (Some 0) [] trace2 store3)))"
    unfolding w by (simp add: t)
  have a: "fst (AddCore_ptr pick_last None ent0 coreA store0) = Some 0"
    by (simp add: store1_value)
  have eo: "ErrorOutput (st_heap store1 0) = Some ws_bad"
    by (simp add: store1_value)
  have b: "Write_ptr (Some 0) [] [] store1 = (Returned, trace2, store2)"
    by (rule store2_value[THEN conjunct1])
  have c: "AddCore_ptr pick_last None ent0 coreB store2 = (Some 0, store3)"
    by (rule store3_value[THEN conjunct1])
  have ic: "is_core_write (EvEncode 5 [] ent0 [])"
    by simp
  from a eo b c w ic n show ?thesis by blast
qed

section \<open>Terminal hooks\<close>

lemma Logger_check_Panic:
  "\<exists>ce. fst (Logger_check log callers PanicLevel msg tr) = Some ce
      \<and> after ce = terminalHookOverride (Some (Action WriteThenPanic)) (onPanic log)"
  by (simp add: Logger_check_def Let_def After_def level_defs
           split: option.splits list.splits)

lemma Logger_check_Fatal:
  "\<exists>ce. fst (Logger_check log callers FatalLevel msg tr) = Some ce
      \<and> after ce = terminalHookOverride (Some (Action WriteThenFatal)) (onFatal log)"
  by (simp add: Logger_check_def Let_def After_def level_defs
           split: option.splits list.splits)

lemma Logger_check_DPanic:
  "development log \<Longrightarrow>
   \<exists>ce. fst (Logger_check log callers DPanicLevel msg tr) = Some ce
      \<and> after ce = terminalHookOverride (Some (Action WriteThenPanic)) (onPanic log)"
  by (simp add: Logger_check_def Let_def After_def level_defs
           split: option.splits list.splits)

lemma terminalHookOverride_default:
  "d \<noteq> None \<Longrightarrow> d \<noteq> Some (Action WriteThenNoop) \<Longrightarrow>
     terminalHookOverride d ov \<noteq> None \<and> terminalHookOverride d ov \<noteq> Some (Action WriteThenNoop)"
  by (simp add: terminalHookOverride_def)

text \<open>
  Claim C7. \<^verbatim>\<open>terminalHookOverride\<close> returns the override when it is neither \<^verbatim>\<open>nil\<close>
  nor \<^verbatim>\<open>WriteThenNoop\<close>, and the default hook otherwise. The entry that
  \<^verbatim>\<open>Logger.check\<close> returns at \<^verbatim>\<open>PanicLevel\<close>, at \<^verbatim>\<open>FatalLevel\<close>, and at
  \<^verbatim>\<open>DPanicLevel\<close> in development, carries the hook chosen this way from
  \<^verbatim>\<open>WriteThenPanic\<close> or \<^verbatim>\<open>WriteThenFatal\<close> and the logger's override; it is never
  \<^verbatim>\<open>nil\<close> and never the no-op action.
\<close>

theorem terminalHookOverride_spec:
  "terminalHookOverride defaultHook override =
     (if override \<noteq> None \<and> override \<noteq> Some (Action WriteThenNoop) then override else defaultHook)
   \<and> (lvl = PanicLevel \<or> lvl = FatalLevel \<or> (lvl = DPanicLevel \<and> development log) \<longrightarrow>
        (\<exists>ce. fst (Logger_check log callers lvl msg tr) = Some ce
           \<and> after ce =
               terminalHookOverride
                 (Some (Action (if lvl = FatalLevel then WriteThenFatal else WriteThenPanic)))
                 (if lvl = FatalLevel then onFatal log else onPanic log)
           \<and> after ce \<noteq> None \<and> after ce \<noteq> Some (Action WriteThenNoop)))"
proof (intro conjI impI)
  show "terminalHookOverride defaultHook override =
     (if override \<noteq> None \<and> override \<noteq> Some (Action WriteThenNoop) then override else defaultHook)"
    by (simp add: terminalHookOverride_def)
next
  assume lv: "lvl = PanicLevel \<or> lvl = FatalLevel \<or> (lvl = DPanicLevel \<and> development log)"
  let ?d = "Some (Action (if lvl = FatalLevel then WriteThenFatal else WriteThenPanic))"
  let ?ov = "if lvl = FatalLevel then onFatal log else onPanic log"
  have ne: "terminalHookOverride ?d ?ov \<noteq> None
      \<and> terminalHookOverride ?d ?ov \<noteq> Some (Action WriteThenNoop)"
    by (rule terminalHookOverride_default) simp_all
  from lv consider (p) "lvl = PanicLevel" | (f) "lvl = FatalLevel"
    | (d) "lvl = DPanicLevel" "development log"
    by blast
  then have "\<exists>ce. fst (Logger_check log callers lvl msg tr) = Some ce
      \<and> after ce = terminalHookOverride ?d ?ov"
  proof cases
    case p
    then show ?thesis
      using Logger_check_Panic[of log callers msg tr] by (simp add: level_defs)
  next
    case f
    then show ?thesis
      using Logger_check_Fatal[of log callers msg tr] by simp
  next
    case d
    then show ?thesis
      using Logger_check_DPanic[of log callers msg tr] by (simp add: level_defs)
  qed
  with ne show "\<exists>ce. fst (Logger_check log callers lvl msg tr) = Some ce
           \<and> after ce = terminalHookOverride ?d ?ov
           \<and> after ce \<noteq> None \<and> after ce \<noteq> Some (Action WriteThenNoop)"
    by auto
qed

theorem terminalHookOverride_spec_witness:
  "terminalHookOverride (Some (Action WriteThenFatal)) (Some (Action WriteThenNoop))
     = Some (Action WriteThenFatal)
   \<and> terminalHookOverride (Some (Action WriteThenPanic)) None = Some (Action WriteThenPanic)
   \<and> terminalHookOverride (Some (Action WriteThenPanic)) (Some (Action WriteThenGoexit))
     = Some (Action WriteThenGoexit)
   \<and> (\<exists>ce. fst (Logger_check log0 (\<lambda>skip. []) FatalLevel ''x'' []) = Some ce
         \<and> after ce = Some (Action WriteThenFatal))
   \<and> (\<exists>ce. fst (Logger_check (log0\<lparr>onPanic := Some (CustomHook 3 Returned)\<rparr>) (\<lambda>skip. [])
                  PanicLevel ''x'' []) = Some ce
         \<and> after ce = Some (CustomHook 3 Returned))"
proof -
  have a: "terminalHookOverride (Some (Action WriteThenFatal)) (Some (Action WriteThenNoop))
     = Some (Action WriteThenFatal)"
    using terminalHookOverride_spec[of "Some (Action WriteThenFatal)" "Some (Action WriteThenNoop)",
        THEN conjunct1]
    by simp
  have b: "terminalHookOverride (Some (Action WriteThenPanic)) None = Some (Action WriteThenPanic)"
    using terminalHookOverride_spec[of "Some (Action WriteThenPanic)" None, THEN conjunct1]
    by simp
  have c: "terminalHookOverride (Some (Action WriteThenPanic)) (Some (Action WriteThenGoexit))
     = Some (Action WriteThenGoexit)"
    using terminalHookOverride_spec[of "Some (Action WriteThenPanic)" "Some (Action WriteThenGoexit)",
        THEN conjunct1]
    by simp
  have "FatalLevel = PanicLevel \<or> FatalLevel = FatalLevel
      \<or> (FatalLevel = DPanicLevel \<and> development log0)"
    by simp
  with terminalHookOverride_spec[of "Some (Action WriteThenFatal)" "onFatal log0" FatalLevel log0
      "\<lambda>skip. []" "''x''" "[]", THEN conjunct2]
  have d: "\<exists>ce. fst (Logger_check log0 (\<lambda>skip. []) FatalLevel ''x'' []) = Some ce
         \<and> after ce = Some (Action WriteThenFatal)"
    using a by (auto simp: log0_def)
  let ?l = "log0\<lparr>onPanic := Some (CustomHook 3 Returned)\<rparr>"
  have "PanicLevel = PanicLevel \<or> PanicLevel = FatalLevel
      \<or> (PanicLevel = DPanicLevel \<and> development ?l)"
    by simp
  with terminalHookOverride_spec[of "Some (Action WriteThenPanic)" "onPanic ?l" PanicLevel ?l
      "\<lambda>skip. []" "''x''" "[]", THEN conjunct2]
  have e: "\<exists>ce. fst (Logger_check ?l (\<lambda>skip. []) PanicLevel ''x'' []) = Some ce
         \<and> after ce = Some (CustomHook 3 Returned)"
    by (auto simp: log0_def level_defs terminalHookOverride_def)
  from a b c d e show ?thesis by blast
qed

end
